theory Spec2Isabelle
  imports Main "HOL-Library.AList" "HOL-Library.Char_ord" "HOL-Library.List_Lexorder"
begin

section \<open>Go values and library functions used by package vault\<close>

text \<open>
  Go's \<^verbatim>\<open>int\<close> is taken to be 64 bits wide (the usual build target).  It is modelled
  as an Isabelle \<open>int\<close> with the wrap-around of the one operation that can overflow in
  the code under study (unary minus) written out.  A Go \<^verbatim>\<open>string\<close> is a byte sequence and
  is modelled as \<open>string\<close>; \<open><\<close> on strings is the byte-wise lexicographic order in both.
\<close>

definition maxInt :: int where
  "maxInt = 2 ^ 63 - 1"

definition minInt :: int where
  "minInt = - (2 ^ 63)"

definition wrap64 :: "int \<Rightarrow> int" where
  "wrap64 x = (x + 2 ^ 63) mod 2 ^ 64 - 2 ^ 63"

definition neg64 :: "int \<Rightarrow> int" where
  "neg64 x = wrap64 (- x)"

text \<open>
  \<^verbatim>\<open>strings.LastIndex(s, "@")\<close> for a one-byte separator: the index of the last
  occurrence of the byte, or \<open>-1\<close> when it does not occur.
\<close>

definition LastIndex :: "string \<Rightarrow> char \<Rightarrow> int" where
  "LastIndex s c =
     (if c \<in> set s
      then int (length s) - 1 - int (length (takeWhile (\<lambda>x. x \<noteq> c) (rev s)))
      else - 1)"

text \<open>
  \<^verbatim>\<open>strconv.Atoi\<close> (Go standard library, not part of the repository): an optional
  sign \<^verbatim>\<open>+\<close> or \<^verbatim>\<open>-\<close> followed by one or more decimal digits; a syntax error otherwise,
  and a range error when the value does not fit \<^verbatim>\<open>int\<close>.  The caller only tests
  \<^verbatim>\<open>err == nil\<close>, so both errors are \<open>None\<close>.
\<close>

definition digitVal :: "char \<Rightarrow> nat option" where
  "digitVal ch =
     (let n = (of_char ch :: nat) in if 48 \<le> n \<and> n \<le> 57 then Some (n - 48) else None)"

fun parseDigits :: "nat \<Rightarrow> string \<Rightarrow> nat option" where
  "parseDigits n [] = Some n"
| "parseDigits n (ch # cs) =
     (case digitVal ch of
        None \<Rightarrow> None
      | Some d \<Rightarrow> parseDigits (n * 10 + d) cs)"

definition Atoi :: "string \<Rightarrow> int option" where
  "Atoi s =
     (case s of
        [] \<Rightarrow> None
      | c # cs \<Rightarrow>
         (let neg = (c = CHR ''-'');
              body = (if c = CHR ''-'' \<or> c = CHR ''+'' then cs else s)
          in if body = [] then None
             else (case parseDigits 0 body of
                     None \<Rightarrow> None
                   | Some n \<Rightarrow>
                       if neg then (if int n \<le> 2 ^ 63 then Some (- int n) else None)
                       else (if int n \<le> maxInt then Some (int n) else None))))"

section \<open>Version references: \<^verbatim>\<open>ParseVersionedPath\<close> (compare.go)\<close>

record VersionSpec =
  Version :: int
  ChangesAgo :: int
  IsPrev :: bool
  IsChangesAgo :: bool

text \<open>The zero value \<^verbatim>\<open>VersionSpec{}\<close>.\<close>

definition zeroSpec :: VersionSpec where
  "zeroSpec = \<lparr>Version = 0, ChangesAgo = 0, IsPrev = False, IsChangesAgo = False\<rparr>"

definition HasVersion :: "VersionSpec \<Rightarrow> bool" where
  "HasVersion v \<longleftrightarrow> Version v > 0 \<or> IsPrev v \<or> IsChangesAgo v"

definition ParseVersionedPath :: "string \<Rightarrow> string \<times> VersionSpec" where
  "ParseVersionedPath path =
     (let spec = zeroSpec; idx = LastIndex path CHR ''@'' in
      if idx \<noteq> - 1 then
        (let versionStr = drop (nat (idx + 1)) path;
             basePath = take (nat idx) path
         in if versionStr = ''prev'' \<or> versionStr = ''previous''
            then (basePath, spec\<lparr>IsPrev := True\<rparr>)
            else (case Atoi versionStr of
                    Some version \<Rightarrow>
                      if version < 0
                      then (basePath, spec\<lparr>ChangesAgo := neg64 version, IsChangesAgo := True\<rparr>)
                      else if version > 0
                      then (basePath, spec\<lparr>Version := version\<rparr>)
                      else (path, spec)
                  | None \<Rightarrow> (path, spec)))
      else (path, spec))"

text \<open>
  The selectors of the specification, written as the \<^verbatim>\<open>VersionSpec\<close> values the unit
  tests of the repository use for them (\<^verbatim>\<open>VersionSpec{Version: 3}\<close>,
  \<^verbatim>\<open>VersionSpec{IsPrev: true}\<close>, \<^verbatim>\<open>VersionSpec{IsChangesAgo: true, ChangesAgo: 3}\<close>,
  \<^verbatim>\<open>VersionSpec{}\<close>).
\<close>

definition NoSelector :: VersionSpec where
  "NoSelector = zeroSpec"

definition Exact :: "int \<Rightarrow> VersionSpec" where
  "Exact n = \<lparr>Version = n, ChangesAgo = 0, IsPrev = False, IsChangesAgo = False\<rparr>"

definition Previous :: VersionSpec where
  "Previous = \<lparr>Version = 0, ChangesAgo = 0, IsPrev = True, IsChangesAgo = False\<rparr>"

definition ChangesAgoSel :: "int \<Rightarrow> VersionSpec" where
  "ChangesAgoSel n = \<lparr>Version = 0, ChangesAgo = n, IsPrev = False, IsChangesAgo = True\<rparr>"

text \<open>
  Integer literals as the specification's suffix grammar means them: an optional sign
  and at least one decimal digit, read in base ten.
\<close>

definition isDigit :: "char \<Rightarrow> bool" where
  "isDigit ch \<longleftrightarrow> CHR ''0'' \<le> ch \<and> ch \<le> CHR ''9''"

definition digitsValue :: "string \<Rightarrow> int" where
  "digitsValue ds = foldl (\<lambda>a ch. 10 * a + (int (of_char ch) - 48)) 0 ds"

definition isIntLiteral :: "string \<Rightarrow> bool" where
  "isIntLiteral s \<longleftrightarrow>
     (case s of
        [] \<Rightarrow> False
      | c # cs \<Rightarrow>
          if c = CHR ''-'' \<or> c = CHR ''+'' then cs \<noteq> [] \<and> list_all isDigit cs
          else list_all isDigit s)"

definition intLiteralValue :: "string \<Rightarrow> int" where
  "intLiteralValue s =
     (case s of
        [] \<Rightarrow> 0
      | c # cs \<Rightarrow>
          if c = CHR ''-'' then - digitsValue cs
          else if c = CHR ''+'' then digitsValue cs
          else digitsValue s)"

section \<open>Dynamic values and their default rendering\<close>

text \<open>
  A value of Go type \<^verbatim>\<open>any\<close> as it reaches this package: decoded from the store's JSON
  (strings, \<^verbatim>\<open>json.Number\<close>, booleans, \<^verbatim>\<open>nil\<close>, slices, \<^verbatim>\<open>map[string]any\<close>) or from a
  local YAML file (in addition integers).  Floating-point values are left out of the
  model.  A Go map is an association list whose keys are distinct; ranging over it
  visits the entries in list order, which is one of the orders Go may choose.
\<close>

datatype any =
    ANil
  | AStr string
  | AInt int
  | ABool bool
  | ANumber string
  | ASlice "any list"
  | AMap "(string \<times> any) list"

type_synonym gomap = "(string \<times> any) list"

text \<open>
  \<^verbatim>\<open>fmt.Sprintf("%v", v)\<close> (Go standard library): strings and \<^verbatim>\<open>json.Number\<close> print as
  they are, integers in decimal, \<^verbatim>\<open>nil\<close> as \<^verbatim>\<open><nil>\<close>, a slice as \<^verbatim>\<open>[a b]\<close> and a map as
  \<^verbatim>\<open>map[k:v ...]\<close> with the keys in increasing order.
\<close>

fun natDigits :: "nat \<Rightarrow> string" where
  "natDigits n =
     (if n < 10 then [''0123456789'' ! n]
      else natDigits (n div 10) @ [''0123456789'' ! (n mod 10)])"

fun joinWith :: "string \<Rightarrow> string list \<Rightarrow> string" where
  "joinWith sep [] = []"
| "joinWith sep [x] = x"
| "joinWith sep (x # y # ys) = x @ sep @ joinWith sep (y # ys)"

fun Sprint :: "any \<Rightarrow> string" where
  "Sprint ANil = ''<nil>''"
| "Sprint (AStr s) = s"
| "Sprint (AInt i) = (if i < 0 then CHR ''-'' # natDigits (nat (- i)) else natDigits (nat i))"
| "Sprint (ABool b) = (if b then ''true'' else ''false'')"
| "Sprint (ANumber s) = s"
| "Sprint (ASlice xs) = ''['' @ joinWith '' '' (map Sprint xs) @ '']''"
| "Sprint (AMap kvs) =
     ''map['' @ joinWith '' ''
        (map (\<lambda>p. fst p @ '':'' @ snd p) (sort_key fst (map (\<lambda>(k, v). (k, Sprint v)) kvs)))
      @ '']''"

section \<open>Diffing two flat maps: \<^verbatim>\<open>CompareSecrets\<close> (compare.go)\<close>

record DiffEntry =
  Key :: string
  Value :: string

record ChangedEntry =
  ChangedKey :: string
  FirstLen :: int
  SecondLen :: int
  FirstValue :: string
  SecondValue :: string

record DiffResult =
  OnlyInFirst :: "DiffEntry list"
  OnlyInSecond :: "DiffEntry list"
  Changed :: "ChangedEntry list"
  UnchangedCount :: int

definition HasDifferences :: "DiffResult \<Rightarrow> bool" where
  "HasDifferences d \<longleftrightarrow>
     length (OnlyInFirst d) > 0 \<or> length (OnlyInSecond d) > 0 \<or> length (Changed d) > 0"

text \<open>\<^verbatim>\<open>hex.EncodeToString\<close>: two lower-case hexadecimal digits per byte.\<close>

definition EncodeToString :: "string \<Rightarrow> string" where
  "EncodeToString bs =
     concat (map (\<lambda>b. [''0123456789abcdef'' ! (of_char b div 16),
                          ''0123456789abcdef'' ! (of_char b mod 16)]) bs)"

text \<open>
  \<^verbatim>\<open>hashValue\<close>. The digest function \<^verbatim>\<open>sha256.Sum256\<close> belongs to Go's standard library
  and is the parameter \<open>sum256\<close>.
\<close>

definition hashValue :: "(string \<Rightarrow> string) \<Rightarrow> any \<Rightarrow> string" where
  "hashValue sum256 v = (let str = Sprint v; hash = sum256 str in EncodeToString hash)"

text \<open>The body of the first loop of \<^verbatim>\<open>CompareSecrets\<close>, over the entries of \<open>secrets1\<close>.\<close>

definition compareFirst ::
  "(string \<Rightarrow> string) \<Rightarrow> gomap \<Rightarrow> DiffResult \<Rightarrow> string \<times> any \<Rightarrow> DiffResult" where
  "compareFirst sum256 secrets2 result kv =
     (let key = fst kv; val1 = snd kv; val1Str = Sprint val1 in
      case map_of secrets2 key of
        Some val2 \<Rightarrow>
          (let val2Str = Sprint val2 in
           if hashValue sum256 val1 \<noteq> hashValue sum256 val2
           then result\<lparr>Changed := Changed result @
                  [\<lparr>ChangedKey = key, FirstLen = int (length val1Str),
                    SecondLen = int (length val2Str),
                    FirstValue = val1Str, SecondValue = val2Str\<rparr>]\<rparr>
           else result\<lparr>UnchangedCount := UnchangedCount result + 1\<rparr>)
      | None \<Rightarrow>
          result\<lparr>OnlyInFirst := OnlyInFirst result @ [\<lparr>Key = key, Value = val1Str\<rparr>]\<rparr>)"

text \<open>The body of the second loop, over the entries of \<open>secrets2\<close>.\<close>

definition compareSecond :: "gomap \<Rightarrow> DiffResult \<Rightarrow> string \<times> any \<Rightarrow> DiffResult" where
  "compareSecond secrets1 result kv =
     (let key = fst kv; val2 = snd kv in
      case map_of secrets1 key of
        None \<Rightarrow>
          result\<lparr>OnlyInSecond := OnlyInSecond result @ [\<lparr>Key = key, Value = Sprint val2\<rparr>]\<rparr>
      | Some _ \<Rightarrow> result)"

text \<open>
  \<^verbatim>\<open>sort.Slice\<close> by key.  The keys of each output list are distinct when the inputs are
  maps, so the sorted list does not depend on the sorting algorithm.
\<close>

definition CompareSecrets :: "(string \<Rightarrow> string) \<Rightarrow> gomap \<Rightarrow> gomap \<Rightarrow> DiffResult" where
  "CompareSecrets sum256 secrets1 secrets2 =
     (let result = \<lparr>OnlyInFirst = [], OnlyInSecond = [], Changed = [], UnchangedCount = 0\<rparr>;
          result = foldl (compareFirst sum256 secrets2) result secrets1;
          result = foldl (compareSecond secrets1) result secrets2
      in result\<lparr>OnlyInFirst := sort_key Key (OnlyInFirst result),
                OnlyInSecond := sort_key Key (OnlyInSecond result),
                Changed := sort_key ChangedKey (Changed result)\<rparr>)"

section \<open>Flattening: \<^verbatim>\<open>Flatten\<close> (flatten.go) and \<^verbatim>\<open>FlattenAndExtractValues\<close> (compare.go)\<close>

text \<open>Assignment \<^verbatim>\<open>m[k] = v\<close> to a Go map is \<open>AList.update k v m\<close>.\<close>

fun flattenRecursive :: "gomap \<Rightarrow> string \<Rightarrow> gomap \<Rightarrow> gomap" where
  "flattenRecursive [] prefix result = result"
| "flattenRecursive ((key, value) # rest) prefix result =
     (let fullKey = (if prefix \<noteq> [] then prefix @ ''.'' @ key else key) in
      flattenRecursive rest prefix
        (case value of
           AMap v \<Rightarrow> flattenRecursive v fullKey result
         | _ \<Rightarrow> AList.update fullKey value result))"

definition Flatten :: "gomap \<Rightarrow> gomap" where
  "Flatten data = flattenRecursive data [] []"

definition HasSuffix :: "string \<Rightarrow> string \<Rightarrow> bool" where
  "HasSuffix s suffix \<longleftrightarrow>
     length suffix \<le> length s \<and> drop (length s - length suffix) s = suffix"

definition TrimSuffix :: "string \<Rightarrow> string \<Rightarrow> string" where
  "TrimSuffix s suffix =
     (if HasSuffix s suffix then take (length s - length suffix) s else s)"

definition extractKey :: "bool \<Rightarrow> string \<Rightarrow> string" where
  "extractKey forDirectory k =
     (if forDirectory \<and> k = ''value'' then []
      else if HasSuffix k ''.value'' then TrimSuffix k ''.value''
      else k)"

definition FlattenAndExtractValues :: "gomap \<Rightarrow> bool \<Rightarrow> gomap" where
  "FlattenAndExtractValues data forDirectory =
     (let flattened = Flatten data in
      foldl (\<lambda>result kv. AList.update (extractKey forDirectory (fst kv)) (snd kv) result)
        [] flattened)"

section \<open>The store client: version history (client.go)\<close>

text \<open>
  Errors are built with \<^verbatim>\<open>fmt.Errorf\<close> in the code; the constructors name the kinds of the
  specification and each use below quotes the message it stands for.  \<open>StoreError\<close> is a
  failed call to the store, \<open>Panic\<close> a nil-pointer dereference.
\<close>

datatype error = NotFound | NoHistory | InvalidDepth | StoreError | Panic

text \<open>
  One entry of the \<^verbatim>\<open>versions\<close> object of the store's metadata response.  Instants are
  integers (a larger number is a later instant); \<open>raw_created_time\<close> is the instant the
  \<^verbatim>\<open>created_time\<close> string parses to, the zero time \<open>0\<close> when it is missing or malformed.
\<close>

record RawVersion =
  raw_created_time :: int
  raw_destroyed :: bool
  raw_deletion_time :: string

text \<open>
  The external store is reached through the client's methods \<^verbatim>\<open>ListSecretPaths\<close>,
  \<^verbatim>\<open>ReadSecretVersion\<close> and \<^verbatim>\<open>ReadSecretRaw\<close> and through the metadata read inside
  \<^verbatim>\<open>GetVersionHistory\<close>.  What they return depends on the store alone, so they are
  parameters: the recursive listing of the secrets below a path, the \<^verbatim>\<open>versions\<close>
  object of a secret's metadata (\<open>None\<close> when the store has no such secret or no such
  object), the data of one version of a secret, and the data of its current version,
  which is the store's answer to a read without a version (\<open>None\<close> for \<^verbatim>\<open>nil\<close>: the
  store has no data there, as when the current version is deleted).  Each may fail.
\<close>

record Client =
  ListSecretPaths :: "string \<Rightarrow> error + string list"
  ReadMetadataVersions :: "string \<Rightarrow> error + (string \<times> RawVersion) list option"
  ReadSecretVersion :: "string \<Rightarrow> int \<Rightarrow> error + gomap option"
  ReadSecretRaw :: "string \<Rightarrow> error + gomap option"

record VersionInfo =
  InfoVersion :: int
  InfoCreatedTime :: int
  InfoDestroyed :: bool
  InfoDeleted :: bool

definition versionInfoOf :: "string \<times> RawVersion \<Rightarrow> VersionInfo option" where
  "versionInfoOf entry =
     (case Atoi (fst entry) of
        None \<Rightarrow> None
      | Some version \<Rightarrow>
          (let info = \<lparr>InfoVersion = version,
                       InfoCreatedTime = raw_created_time (snd entry),
                       InfoDestroyed = raw_destroyed (snd entry),
                       InfoDeleted = (raw_deletion_time (snd entry) \<noteq> [])\<rparr>
           in if \<not> InfoDestroyed info \<and> \<not> InfoDeleted info then Some info else None))"

text \<open>
  \<^verbatim>\<open>GetVersionHistory\<close>: the retained (neither destroyed nor deleted) versions, sorted by
  version descending.  \<^verbatim>\<open>sort.Slice\<close> leaves the order of equal elements open; the model
  keeps them in their previous order.
\<close>

definition GetVersionHistory :: "Client \<Rightarrow> string \<Rightarrow> error + VersionInfo list" where
  "GetVersionHistory c path =
     (case ReadMetadataVersions c path of
        Inl e \<Rightarrow> Inl StoreError
      | Inr None \<Rightarrow> Inr []
      | Inr (Some versions) \<Rightarrow>
          Inr (sort_key (\<lambda>info. - InfoVersion info) (List.map_filter versionInfoOf versions)))"

section \<open>Timeline and reconstruction of past states (timeline.go)\<close>

record TimelineEntry =
  Time :: int
  SecretPath :: string
  FullPath :: string
  EntryVersion :: int
  IsCreation :: bool

text \<open>The body of the loop of \<^verbatim>\<open>GetTimeline\<close> over the listed paths.\<close>

definition timelineStep :: "Client \<Rightarrow> string \<Rightarrow> TimelineEntry list \<Rightarrow> string \<Rightarrow> TimelineEntry list" where
  "timelineStep c path timeline secretPath =
     (let fullPath = path @ ''/'' @ secretPath in
      case GetVersionHistory c fullPath of
        Inl e \<Rightarrow> timeline
      | Inr versions \<Rightarrow>
          timeline @ map (\<lambda>v. \<lparr>Time = InfoCreatedTime v, SecretPath = secretPath,
                                 FullPath = fullPath, EntryVersion = InfoVersion v,
                                 IsCreation = (InfoVersion v = 1)\<rparr>) versions)"

text \<open>
  \<^verbatim>\<open>GetTimeline\<close>.  \<open>NotFound\<close> is "no secrets found at ...", \<open>NoHistory\<close> is "no version
  history found at ...".  The final sort is by time descending.
\<close>

definition GetTimeline :: "Client \<Rightarrow> string \<Rightarrow> error + TimelineEntry list" where
  "GetTimeline c path =
     (case ListSecretPaths c path of
        Inl e \<Rightarrow> Inl StoreError
      | Inr paths \<Rightarrow>
          if length paths = 0 then Inl NotFound
          else (let timeline = foldl (timelineStep c path) [] paths in
                if length timeline = 0 then Inl NoHistory
                else Inr (sort_key (\<lambda>e. - Time e) timeline)))"

record changeEvent =
  secretPath :: string
  version :: int
  createdTime :: int




text \<open>The names under which the fields of one secret enter the result.\<close>

definition addFields :: "string \<Rightarrow> gomap \<Rightarrow> gomap \<Rightarrow> gomap" where
  "addFields relPath flattened result =
     foldl (\<lambda>result kv.
              if fst kv = [] then AList.update relPath (snd kv) result
              else AList.update (relPath @ ''.'' @ fst kv) (snd kv) result)
       result flattened"



subsection \<open>The pointer walk as the specification words it\<close>


definition keyHistory :: "Client \<Rightarrow> string \<Rightarrow> string \<Rightarrow> VersionInfo list" where
  "keyHistory c dir k =
     (case GetVersionHistory c (dir @ ''/'' @ k) of Inl e \<Rightarrow> [] | Inr h \<Rightarrow> h)"

text \<open>
  The version that \<^verbatim>\<open>GetStateAtChangesAgo\<close> records as the current one of a key
  (\<^verbatim>\<open>history[0].Version\<close>): the newest version of its retained history.
\<close>

definition currentVersion :: "Client \<Rightarrow> string \<Rightarrow> string \<Rightarrow> int option" where
  "currentVersion c dir k =
     (case keyHistory c dir k of [] \<Rightarrow> None | h # _ \<Rightarrow> Some (InfoVersion h))"



text \<open>One event of the walk: the pointer of its key drops by one iff it equals the event's version.\<close>

definition walkEvent :: "changeEvent \<Rightarrow> (string \<rightharpoonup> int) \<Rightarrow> (string \<rightharpoonup> int)" where
  "walkEvent e pointer =
     (if pointer (secretPath e) = Some (version e)
      then pointer(secretPath e \<mapsto> version e - 1)
      else pointer)"



text \<open>
  The value of key \<open>k\<close> read at version \<open>ver\<close>, as the fields it contributes to a flat
  directory state; nothing when the read gives no data.
\<close>

definition valueAt :: "Client \<Rightarrow> string \<Rightarrow> string \<Rightarrow> int \<Rightarrow> gomap" where
  "valueAt c dir k ver =
     (case ReadSecretVersion c (dir @ ''/'' @ k) ver of
        Inr (Some secrets) \<Rightarrow> addFields k (FlattenAndExtractValues secrets True) []
      | _ \<Rightarrow> [])"



subsection \<open>The live current state\<close>

text \<open>
  The current value of key \<open>k\<close>: what the store returns for a read of \<open>k\<close> without a
  version (\<^verbatim>\<open>ReadSecretRaw\<close> in the code, ReadCurrent in the specification), as the
  fields it contributes to a flat directory state; nothing when the read gives no data.
\<close>

definition liveValue :: "Client \<Rightarrow> string \<Rightarrow> string \<Rightarrow> gomap" where
  "liveValue c dir k =
     (case ReadSecretRaw c (dir @ ''/'' @ k) of
        Inr (Some secrets) \<Rightarrow> addFields k (FlattenAndExtractValues secrets True) []
      | _ \<Rightarrow> [])"


text \<open>
  The value of key \<open>k\<close> at its newest retained version, which is where the pointer of
  \<open>k\<close> starts; nothing when \<open>k\<close> has no retained version.
\<close>

definition retainedValue :: "Client \<Rightarrow> string \<Rightarrow> string \<Rightarrow> gomap" where
  "retainedValue c dir k =
     (case currentVersion c dir k of
        None \<Rightarrow> []
      | Some ver \<Rightarrow> if ver \<ge> 1 then valueAt c dir k ver else [])"

section \<open>Snapshots and reconciliation (snapshot.go)\<close>

record SnapshotSecret =
  SecretValue :: any
  SecretVersion :: int
  SecretUpdated :: int

record Snapshot =
  Path :: string
  CreatedAt :: int
  Secrets :: "(string \<times> SnapshotSecret) list"

record RestoreOptions =
  DryRun :: bool
  Verify :: bool
  DeleteExtra :: bool

record RestoreResult =
  Added :: "string list"
  Updated :: "string list"
  Deleted :: "string list"
  Unchanged :: "string list"
  Skipped :: "string list"



subsection \<open>The store that reconciliation writes to\<close>

text \<open>
  Modelled from the spec: the external secret store (section 6 of the specification:
  ReadCurrent, ListPaths, CurrentVersion, Write, Delete), which the repository reaches
  through an HTTP client that is not part of it.  A store maps the full path of each
  secret to its current version and data.  A write creates version 1 or the next
  version, a delete removes the secret with its metadata, and the listing of a path
  returns the paths of the secrets below it, relative to it.  The five functions below
  are what the client's methods \<^verbatim>\<open>ListSecretPaths\<close>, \<^verbatim>\<open>GetMetadata\<close>, \<^verbatim>\<open>ReadSecretRaw\<close>,
  \<^verbatim>\<open>WriteSecret\<close> and \<^verbatim>\<open>DeleteSecret\<close> return on such a store.  The store may refuse
  to read the metadata of some paths (a permission that covers a secret's data but not
  its metadata, for one): \<^verbatim>\<open>GetMetadata\<close> returns an error for the paths in the list
  \<open>unreadable\<close>.  The other calls do not fail in this store; the error returns of the
  code that follow them are modelled all the same.
\<close>

record StoredSecret =
  StoredVersion :: int
  StoredData :: gomap

type_synonym store = "(string \<times> StoredSecret) list"

record SecretMetadata =
  CurrentVersion :: int

definition stripPrefix :: "string \<Rightarrow> string \<Rightarrow> string option" where
  "stripPrefix prefix s =
     (if take (length prefix) s = prefix then Some (drop (length prefix) s) else None)"

definition storeListSecretPaths :: "store \<Rightarrow> string \<Rightarrow> error + string list" where
  "storeListSecretPaths st path = Inr (List.map_filter (\<lambda>kv. stripPrefix (path @ ''/'') (fst kv)) st)"

definition storeGetMetadata ::
  "string list \<Rightarrow> store \<Rightarrow> string \<Rightarrow> error + SecretMetadata option" where
  "storeGetMetadata unreadable st path =
     (if path \<in> set unreadable then Inl StoreError
      else Inr (map_option (\<lambda>s. \<lparr>CurrentVersion = StoredVersion s\<rparr>) (map_of st path)))"

definition storeReadSecretRaw :: "store \<Rightarrow> string \<Rightarrow> error + gomap option" where
  "storeReadSecretRaw st path = Inr (map_option StoredData (map_of st path))"

definition storeWriteSecret :: "store \<Rightarrow> string \<Rightarrow> gomap \<Rightarrow> error + store" where
  "storeWriteSecret st path data =
     Inr (AList.update path
            \<lparr>StoredVersion = (case map_of st path of None \<Rightarrow> 1 | Some s \<Rightarrow> StoredVersion s + 1),
             StoredData = data\<rparr> st)"

definition storeDeleteSecret :: "store \<Rightarrow> string \<Rightarrow> error + store" where
  "storeDeleteSecret st path = Inr (AList.delete path st)"

subsection \<open>\<^verbatim>\<open>RestoreSnapshot\<close>\<close>

text \<open>
  The value compared for a secret: a map with the single key \<^verbatim>\<open>value\<close> stands for that
  value.  The code does this to the snapshot value when it is a map, and to the data
  read from the store.
\<close>

definition unwrapValue :: "gomap \<Rightarrow> any" where
  "unwrapValue m =
     (case map_of m ''value'' of
        Some v \<Rightarrow> if length m = 1 then v else AMap m
      | None \<Rightarrow> AMap m)"

definition snapshotCompareValue :: "any \<Rightarrow> any" where
  "snapshotCompareValue snapshotValue =
     (case snapshotValue of AMap sv \<Rightarrow> unwrapValue sv | _ \<Rightarrow> snapshotValue)"

text \<open>The data written for a snapshot value: a map as it is, a simple value wrapped.\<close>

definition writeData :: "any \<Rightarrow> gomap" where
  "writeData data = (case data of AMap dataMap \<Rightarrow> dataMap | _ \<Rightarrow> [(''value'', data)])"

text \<open>
  The state of the loops: the result so far, the set \<^verbatim>\<open>currentSet\<close> of live paths not yet
  matched, and the store.
\<close>

type_synonym restoreState = "RestoreResult \<times> (string \<times> bool) list \<times> store"

text \<open>
  The verify check of one snapshot secret: \<open>Inr True\<close> when the secret is to be skipped.
  A failed metadata read does not skip; a missing metadata record is dereferenced.
\<close>

definition verifyMismatch ::
  "string list \<Rightarrow> RestoreOptions \<Rightarrow> store \<Rightarrow> string \<Rightarrow> bool \<Rightarrow> SnapshotSecret
     \<Rightarrow> error + bool" where
  "verifyMismatch unreadable opts st fullPath exists snapshotSecret =
     (if Verify opts \<and> exists then
        (case storeGetMetadata unreadable st fullPath of
           Inl e \<Rightarrow> Inr False
         | Inr None \<Rightarrow> Inl Panic
         | Inr (Some metadata) \<Rightarrow> Inr (CurrentVersion metadata \<noteq> SecretVersion snapshotSecret))
      else Inr False)"

text \<open>Whether an existing secret already holds the snapshot value.\<close>

definition sameValue :: "store \<Rightarrow> string \<Rightarrow> SnapshotSecret \<Rightarrow> bool" where
  "sameValue st fullPath snapshotSecret =
     (case storeReadSecretRaw st fullPath of
        Inl e \<Rightarrow> False
      | Inr currentData \<Rightarrow>
          (let snapshotValue = snapshotCompareValue (SecretValue snapshotSecret);
               currentValue = unwrapValue (case currentData of None \<Rightarrow> [] | Some d \<Rightarrow> d)
           in Sprint currentValue = Sprint snapshotValue))"

text \<open>
  The body of the loop over the snapshot's secrets.  The error, if any, comes with the
  state reached, since the writes made before it stay in the store.
\<close>

definition restoreSecret ::
  "string list \<Rightarrow> RestoreOptions \<Rightarrow> string \<Rightarrow> restoreState \<Rightarrow> string \<times> SnapshotSecret
     \<Rightarrow> error option \<times> restoreState" where
  "restoreSecret unreadable opts targetPath state entry =
     (let result = fst state; currentSet = fst (snd state); st = snd (snd state);
          relPath = fst entry; snapshotSecret = snd entry;
          fullPath = targetPath @ ''/'' @ relPath;
          exists = (case map_of currentSet relPath of Some b \<Rightarrow> b | None \<Rightarrow> False);
          currentSet = AList.delete relPath currentSet
      in case verifyMismatch unreadable opts st fullPath exists snapshotSecret of
           Inl e \<Rightarrow> (Some e, result, currentSet, st)
         | Inr True \<Rightarrow> (None, result\<lparr>Skipped := Skipped result @ [relPath]\<rparr>, currentSet, st)
         | Inr False \<Rightarrow>
             if exists \<and> sameValue st fullPath snapshotSecret
             then (None, result\<lparr>Unchanged := Unchanged result @ [relPath]\<rparr>, currentSet, st)
             else
               (let result = (if exists then result\<lparr>Updated := Updated result @ [relPath]\<rparr>
                              else result\<lparr>Added := Added result @ [relPath]\<rparr>)
                in if \<not> DryRun opts then
                     (case storeWriteSecret st fullPath (writeData (SecretValue snapshotSecret)) of
                        Inl e \<Rightarrow> (Some e, result, currentSet, st)
                      | Inr st' \<Rightarrow> (None, result, currentSet, st'))
                   else (None, result, currentSet, st)))"

fun restoreSecrets ::
  "string list \<Rightarrow> RestoreOptions \<Rightarrow> string \<Rightarrow> restoreState
     \<Rightarrow> (string \<times> SnapshotSecret) list \<Rightarrow> error option \<times> restoreState" where
  "restoreSecrets unreadable opts targetPath state [] = (None, state)"
| "restoreSecrets unreadable opts targetPath state (entry # rest) =
     (case restoreSecret unreadable opts targetPath state entry of
        (Some e, state') \<Rightarrow> (Some e, state')
      | (None, state') \<Rightarrow> restoreSecrets unreadable opts targetPath state' rest)"

text \<open>The loop over what is left of \<^verbatim>\<open>currentSet\<close>: the live secrets absent from the snapshot.\<close>

fun deleteExtras ::
  "RestoreOptions \<Rightarrow> string \<Rightarrow> RestoreResult \<times> store \<Rightarrow> (string \<times> bool) list
     \<Rightarrow> error option \<times> RestoreResult \<times> store" where
  "deleteExtras opts targetPath state [] = (None, state)"
| "deleteExtras opts targetPath state (entry # rest) =
     (let result = (fst state)\<lparr>Deleted := Deleted (fst state) @ [fst entry]\<rparr>; st = snd state in
      if \<not> DryRun opts then
        (case storeDeleteSecret st (targetPath @ ''/'' @ fst entry) of
           Inl e \<Rightarrow> (Some e, result, st)
         | Inr st' \<Rightarrow> deleteExtras opts targetPath (result, st') rest)
      else deleteExtras opts targetPath (result, st) rest)"

text \<open>
  \<^verbatim>\<open>RestoreSnapshot\<close> returns the result or an error, and leaves the store in the second
  component.  A failed listing of the target counts as an empty target.  The first
  argument lists the paths whose metadata the store refuses to read.
\<close>

definition RestoreSnapshot ::
  "string list \<Rightarrow> store \<Rightarrow> Snapshot \<Rightarrow> string \<Rightarrow> RestoreOptions
     \<Rightarrow> (error + RestoreResult) \<times> store" where
  "RestoreSnapshot unreadable st snapshot targetPath opts =
     (let result = \<lparr>Added = [], Updated = [], Deleted = [], Unchanged = [], Skipped = []\<rparr>;
          currentPaths = (case storeListSecretPaths st targetPath of
                            Inl e \<Rightarrow> [] | Inr paths \<Rightarrow> paths);
          currentSet = foldl (\<lambda>set p. AList.update p True set) [] currentPaths
      in case restoreSecrets unreadable opts targetPath (result, currentSet, st) (Secrets snapshot) of
           (Some e, result, currentSet, st') \<Rightarrow> (Inl e, st')
         | (None, result, currentSet, st') \<Rightarrow>
             if DeleteExtra opts then
               (case deleteExtras opts targetPath (result, st') currentSet of
                  (Some e, result, st'') \<Rightarrow> (Inl e, st'')
                | (None, result, st'') \<Rightarrow> (Inr result, st''))
             else (Inr result, st'))"

subsection \<open>Example data\<close>

text \<open>The scenario of the specification: snapshot \<open>{a:"1", b:"2"}\<close>, live \<open>{a:"1", c:"3"}\<close>.\<close>

definition scenarioSnapshot :: "int \<Rightarrow> int \<Rightarrow> Snapshot" where
  "scenarioSnapshot va vb =
     \<lparr>Path = ''secret/app'', CreatedAt = 0,
      Secrets = [(''a'', \<lparr>SecretValue = AStr ''1'', SecretVersion = va, SecretUpdated = 0\<rparr>),
                 (''b'', \<lparr>SecretValue = AStr ''2'', SecretVersion = vb, SecretUpdated = 0\<rparr>)]\<rparr>"

definition scenarioStore :: "int \<Rightarrow> int \<Rightarrow> store" where
  "scenarioStore va vc =
     [(''secret/app/a'', \<lparr>StoredVersion = va, StoredData = [(''value'', AStr ''1'')]\<rparr>),
      (''secret/app/c'', \<lparr>StoredVersion = vc, StoredData = [(''value'', AStr ''3'')]\<rparr>)]"

text \<open>
  A target in which secret \<open>a\<close> was written by someone else after the snapshot
  \<open>scenarioSnapshot 1 1\<close> had been captured: it is at version 2 with another value.
\<close>

definition changedStore :: store where
  "changedStore =
     [(''secret/app/a'', \<lparr>StoredVersion = 2, StoredData = [(''value'', AStr ''changed'')]\<rparr>)]"

text \<open>
  A store client given by tables: the listing of each directory, the \<^verbatim>\<open>versions\<close> object
  of each secret, the data of each version, and the current data of each secret.  Its
  calls never fail.
\<close>

definition tableClient ::
  "(string \<times> string list) list \<Rightarrow> (string \<times> (string \<times> RawVersion) list) list
     \<Rightarrow> ((string \<times> int) \<times> gomap) list \<Rightarrow> (string \<times> gomap) list \<Rightarrow> Client" where
  "tableClient dirs metas datas currents =
     \<lparr>ListSecretPaths = (\<lambda>p. case map_of dirs p of Some ks \<Rightarrow> Inr ks | None \<Rightarrow> Inr []),
      ReadMetadataVersions = (\<lambda>p. Inr (map_of metas p)),
      ReadSecretVersion = (\<lambda>p v. Inr (map_of datas (p, v))),
      ReadSecretRaw = (\<lambda>p. Inr (map_of currents p))\<rparr>"

definition retainedAt :: "int \<Rightarrow> RawVersion" where
  "retainedAt t = \<lparr>raw_created_time = t, raw_destroyed = False, raw_deletion_time = []\<rparr>"


text \<open>Directory \<open>d\<close> with the single secret \<open>k\<close>, written once.\<close>

definition freshClient :: Client where
  "freshClient =
     tableClient [(''d'', [''k''])]
       [(''d/k'', [(''1'', retainedAt 10)])]
       [((''d/k'', 1), [(''value'', AStr ''x'')])]
       [(''d/k'', [(''value'', AStr ''x'')])]"


text \<open>A directory without secrets.\<close>

definition emptyClient :: Client where
  "emptyClient = tableClient [] [] [] []"

text \<open>Directory \<open>d\<close> lists the secret \<open>k\<close>, whose only version has been deleted.\<close>

definition goneClient :: Client where
  "goneClient =
     tableClient [(''d'', [''k''])]
       [(''d/k'', [(''1'', \<lparr>raw_created_time = 10, raw_destroyed = False,
                             raw_deletion_time = ''2024-05-01T10:00:00Z''\<rparr>)])]
       [] []"



subsection \<open>Auxiliary notions for the proofs\<close>

text \<open>The association list that holds the pointers of the keys \<open>ks\<close>, in their order.\<close>

definition alistOf :: "(string \<rightharpoonup> int) \<Rightarrow> string list \<Rightarrow> (string \<times> int) list" where
  "alistOf pointer ks = List.map_filter (\<lambda>k. map_option (Pair k) (pointer k)) ks"


text \<open>How the first loop of \<^verbatim>\<open>CompareSecrets\<close> classifies an entry of the first map.\<close>

definition absentFrom :: "gomap \<Rightarrow> string \<times> any \<Rightarrow> bool" where
  "absentFrom m kv \<longleftrightarrow> map_of m (fst kv) = None"

definition sameHash :: "(string \<Rightarrow> string) \<Rightarrow> gomap \<Rightarrow> string \<times> any \<Rightarrow> bool" where
  "sameHash sum256 m kv \<longleftrightarrow>
     (case map_of m (fst kv) of
        None \<Rightarrow> False
      | Some v2 \<Rightarrow> hashValue sum256 (snd kv) = hashValue sum256 v2)"

definition otherHash :: "(string \<Rightarrow> string) \<Rightarrow> gomap \<Rightarrow> string \<times> any \<Rightarrow> bool" where
  "otherHash sum256 m kv \<longleftrightarrow>
     (case map_of m (fst kv) of
        None \<Rightarrow> False
      | Some v2 \<Rightarrow> hashValue sum256 (snd kv) \<noteq> hashValue sum256 v2)"

text \<open>The live secret at relative path \<open>k\<close> below \<open>targetPath\<close>, if there is one.\<close>

definition liveAt :: "store \<Rightarrow> string \<Rightarrow> string \<Rightarrow> StoredSecret option" where
  "liveAt st targetPath k = map_of st (targetPath @ ''/'' @ k)"

text \<open>\<^verbatim>\<open>currentSet\<close> has \<open>k\<close> exactly when \<open>k\<close> is live.\<close>

definition linked :: "(string \<times> bool) list \<Rightarrow> store \<Rightarrow> string \<Rightarrow> string \<Rightarrow> bool" where
  "linked currentSet st targetPath k \<longleftrightarrow>
     map_of currentSet k = (if liveAt st targetPath k = None then None else Some True)"

text \<open>
  A snapshot entry that a run leaves alone: its secret is live, and it is either
  skipped by the verify check (which takes a metadata read that succeeds) or already
  holds the snapshot value.
\<close>

definition settled ::
  "string list \<Rightarrow> RestoreOptions \<Rightarrow> store \<Rightarrow> string \<Rightarrow> string \<times> SnapshotSecret \<Rightarrow> bool" where
  "settled unreadable opts st targetPath entry \<longleftrightarrow>
     (case liveAt st targetPath (fst entry) of
        None \<Rightarrow> False
      | Some live \<Rightarrow>
          (Verify opts \<and> targetPath @ ''/'' @ fst entry \<notin> set unreadable \<and>
           StoredVersion live \<noteq> SecretVersion (snd entry)) \<or>
          sameValue st (targetPath @ ''/'' @ fst entry) (snd entry))"

section \<open>Properties of \<^verbatim>\<open>ParseVersionedPath\<close>\<close>

lemma LastIndex_split:
  assumes "c \<notin> set suf"
  shows "LastIndex (base @ c # suf) c = int (length base)"
proof -
  have "takeWhile (\<lambda>x. x \<noteq> c) (rev suf @ c # rev base) = rev suf"
    using assms by (auto simp: takeWhile_tail)
  then show ?thesis by (simp add: LastIndex_def)
qed

lemma LastIndex_none: "c \<notin> set s \<Longrightarrow> LastIndex s c = - 1"
  by (simp add: LastIndex_def)

lemma digitVal_isDigit:
  "digitVal ch = (if isDigit ch then Some (nat (int (of_char ch) - 48)) else None)"
  by (auto simp: isDigit_def digitVal_def less_eq_char_def Let_def)

lemma parseDigits_acc:
  "parseDigits n ds =
     (if list_all isDigit ds
      then Some (nat (foldl (\<lambda>a ch. 10 * a + (int (of_char ch) - 48)) (int n) ds))
      else None)"
proof (induction ds arbitrary: n)
  case Nil
  show ?case by simp
next
  case (Cons ch cs)
  show ?case
  proof (cases "isDigit ch")
    case True
    then have "48 \<le> (of_char ch :: nat)"
      by (simp add: isDigit_def less_eq_char_def)
    then have "int (n * 10 + nat (int (of_char ch) - 48)) = 10 * int n + (int (of_char ch) - 48)"
      by simp
    with True show ?thesis
      by (simp add: digitVal_isDigit Cons.IH mult.commute)
  next
    case False
    then show ?thesis by (simp add: digitVal_isDigit)
  qed
qed

lemma foldl_digits_nonneg:
  "list_all isDigit ds \<Longrightarrow> 0 \<le> a \<Longrightarrow>
     0 \<le> foldl (\<lambda>a ch. 10 * a + (int (of_char ch) - 48)) a ds"
proof (induction ds arbitrary: a)
  case Nil
  then show ?case by simp
next
  case (Cons ch cs)
  from Cons.prems have "48 \<le> (of_char ch :: nat)"
    by (simp add: isDigit_def less_eq_char_def)
  then have "0 \<le> 10 * a + (int (of_char ch) - 48)"
    using Cons.prems by simp
  with Cons show ?case by simp
qed

lemma parseDigits_value:
  "parseDigits 0 ds = (if list_all isDigit ds then Some (nat (digitsValue ds)) else None)"
  by (simp add: parseDigits_acc digitsValue_def)

lemma digitsValue_nonneg: "list_all isDigit ds \<Longrightarrow> 0 \<le> digitsValue ds"
  unfolding digitsValue_def by (rule foldl_digits_nonneg) simp_all

text \<open>\<^verbatim>\<open>Atoi\<close> succeeds exactly on the integer literals whose value fits \<^verbatim>\<open>int\<close>.\<close>

lemma Atoi_literal:
  "Atoi s =
     (if isIntLiteral s \<and> minInt \<le> intLiteralValue s \<and> intLiteralValue s \<le> maxInt
      then Some (intLiteralValue s) else None)"
proof (cases s)
  case Nil
  then show ?thesis by (simp add: Atoi_def isIntLiteral_def)
next
  case (Cons c cs)
  consider "c = CHR ''-''" | "c = CHR ''+''" | "c \<noteq> CHR ''-''" "c \<noteq> CHR ''+''"
    by blast
  then show ?thesis
  proof cases
    case 1
    then show ?thesis
      using Cons digitsValue_nonneg[of cs]
      by (auto simp: Atoi_def isIntLiteral_def intLiteralValue_def parseDigits_value Let_def
            minInt_def maxInt_def simp del: parseDigits.simps)
  next
    case 2
    then show ?thesis
      using Cons digitsValue_nonneg[of cs]
      by (auto simp: Atoi_def isIntLiteral_def intLiteralValue_def parseDigits_value Let_def
            minInt_def maxInt_def simp del: parseDigits.simps)
  next
    case 3
    then show ?thesis
      using Cons digitsValue_nonneg[of s]
      by (auto simp: Atoi_def isIntLiteral_def intLiteralValue_def parseDigits_value Let_def
            minInt_def maxInt_def simp del: parseDigits.simps)
  qed
qed

lemma neg64_in_range: "minInt < v \<Longrightarrow> v < 0 \<Longrightarrow> neg64 v = - v"
  by (simp add: neg64_def wrap64_def minInt_def)

lemma ParseVersionedPath_split:
  assumes "CHR ''@'' \<notin> set suf"
  shows "ParseVersionedPath (base @ ''@'' @ suf) =
     (if suf = ''prev'' \<or> suf = ''previous'' then (base, zeroSpec\<lparr>IsPrev := True\<rparr>)
      else (case Atoi suf of
              Some v \<Rightarrow>
                if v < 0 then (base, zeroSpec\<lparr>ChangesAgo := neg64 v, IsChangesAgo := True\<rparr>)
                else if v > 0 then (base, zeroSpec\<lparr>Version := v\<rparr>)
                else (base @ ''@'' @ suf, zeroSpec)
            | None \<Rightarrow> (base @ ''@'' @ suf, zeroSpec)))"
proof -
  have idx: "LastIndex (base @ ''@'' @ suf) CHR ''@'' = int (length base)"
    using LastIndex_split[OF assms, of base] by simp
  show ?thesis
    unfolding ParseVersionedPath_def idx Let_def
    by (simp add: nat_add_distrib split: option.split)
qed

text \<open>
  Claim C8, as amended.  \<^verbatim>\<open>ParseVersionedPath\<close> splits at the last \<^verbatim>\<open>@\<close>.  A path without
  \<^verbatim>\<open>@\<close> comes back unchanged with no selector.  Otherwise, for the suffix after the last
  \<^verbatim>\<open>@\<close>: \<^verbatim>\<open>prev\<close> and \<^verbatim>\<open>previous\<close> give \<open>Previous\<close>; an integer literal with value \<open>n\<close>,
  \<open>0 < n \<le> maxInt\<close>, gives \<open>Exact n\<close>; an integer literal with value \<open>- n\<close>,
  \<open>0 < n \<le> maxInt\<close>, gives \<open>ChangesAgo n\<close>; every other suffix that is not an integer
  literal, the literals of value \<open>0\<close>, and the integer literals whose value does not fit
  a 64-bit \<^verbatim>\<open>int\<close> give no selector and the whole input string as the path.  The five
  examples of the specification hold.  (The literal of value \<open>minInt\<close> is not covered.)
\<close>

theorem ParseVersionedPath_suffix_grammar:
  "(CHR ''@'' \<notin> set path \<longrightarrow> ParseVersionedPath path = (path, NoSelector)) \<and>
   (CHR ''@'' \<notin> set suf \<longrightarrow>
      (suf = ''prev'' \<or> suf = ''previous'' \<longrightarrow>
         ParseVersionedPath (base @ ''@'' @ suf) = (base, Previous)) \<and>
      (isIntLiteral suf \<and> 0 < intLiteralValue suf \<and> intLiteralValue suf \<le> maxInt \<longrightarrow>
         ParseVersionedPath (base @ ''@'' @ suf) = (base, Exact (intLiteralValue suf))) \<and>
      (isIntLiteral suf \<and> - maxInt \<le> intLiteralValue suf \<and> intLiteralValue suf < 0 \<longrightarrow>
         ParseVersionedPath (base @ ''@'' @ suf) = (base, ChangesAgoSel (- intLiteralValue suf))) \<and>
      (suf \<noteq> ''prev'' \<and> suf \<noteq> ''previous'' \<and>
       (\<not> isIntLiteral suf \<or> intLiteralValue suf = 0 \<or> maxInt < intLiteralValue suf
          \<or> intLiteralValue suf < minInt) \<longrightarrow>
         ParseVersionedPath (base @ ''@'' @ suf) = (base @ ''@'' @ suf, NoSelector))) \<and>
   ParseVersionedPath ''p@3'' = (''p'', Exact 3) \<and>
   ParseVersionedPath ''p@prev'' = (''p'', Previous) \<and>
   ParseVersionedPath ''p@-2'' = (''p'', ChangesAgoSel 2) \<and>
   ParseVersionedPath ''p@0'' = (''p@0'', NoSelector) \<and>
   ParseVersionedPath ''user@example.com'' = (''user@example.com'', NoSelector)"
proof -
  have plain: "CHR ''@'' \<notin> set path \<longrightarrow> ParseVersionedPath path = (path, NoSelector)"
    by (simp add: ParseVersionedPath_def LastIndex_none NoSelector_def)
  have notlit: "\<not> isIntLiteral ''prev''" "\<not> isIntLiteral ''previous''"
    by (simp_all add: isIntLiteral_def isDigit_def less_eq_char_def)
  have suffix: "CHR ''@'' \<notin> set suf \<longrightarrow>
      (suf = ''prev'' \<or> suf = ''previous'' \<longrightarrow>
         ParseVersionedPath (base @ ''@'' @ suf) = (base, Previous)) \<and>
      (isIntLiteral suf \<and> 0 < intLiteralValue suf \<and> intLiteralValue suf \<le> maxInt \<longrightarrow>
         ParseVersionedPath (base @ ''@'' @ suf) = (base, Exact (intLiteralValue suf))) \<and>
      (isIntLiteral suf \<and> - maxInt \<le> intLiteralValue suf \<and> intLiteralValue suf < 0 \<longrightarrow>
         ParseVersionedPath (base @ ''@'' @ suf) = (base, ChangesAgoSel (- intLiteralValue suf))) \<and>
      (suf \<noteq> ''prev'' \<and> suf \<noteq> ''previous'' \<and>
       (\<not> isIntLiteral suf \<or> intLiteralValue suf = 0 \<or> maxInt < intLiteralValue suf
          \<or> intLiteralValue suf < minInt) \<longrightarrow>
         ParseVersionedPath (base @ ''@'' @ suf) = (base @ ''@'' @ suf, NoSelector))"
  proof
    assume at: "CHR ''@'' \<notin> set suf"
    note split = ParseVersionedPath_split[OF at, of base]
    have a: "suf = ''prev'' \<or> suf = ''previous'' \<longrightarrow>
         ParseVersionedPath (base @ ''@'' @ suf) = (base, Previous)"
      using split by (auto simp: Previous_def zeroSpec_def)
    have b: "isIntLiteral suf \<and> 0 < intLiteralValue suf \<and> intLiteralValue suf \<le> maxInt \<longrightarrow>
         ParseVersionedPath (base @ ''@'' @ suf) = (base, Exact (intLiteralValue suf))"
      using split notlit
      by (auto simp: Atoi_literal Exact_def zeroSpec_def minInt_def)
    have c: "isIntLiteral suf \<and> - maxInt \<le> intLiteralValue suf \<and> intLiteralValue suf < 0 \<longrightarrow>
         ParseVersionedPath (base @ ''@'' @ suf) = (base, ChangesAgoSel (- intLiteralValue suf))"
      using split notlit neg64_in_range[of "intLiteralValue suf"]
      by (auto simp: Atoi_literal ChangesAgoSel_def zeroSpec_def minInt_def maxInt_def)
    have d: "suf \<noteq> ''prev'' \<and> suf \<noteq> ''previous'' \<and>
       (\<not> isIntLiteral suf \<or> intLiteralValue suf = 0 \<or> maxInt < intLiteralValue suf
          \<or> intLiteralValue suf < minInt) \<longrightarrow>
         ParseVersionedPath (base @ ''@'' @ suf) = (base @ ''@'' @ suf, NoSelector)"
      using split
      by (auto simp: Atoi_literal NoSelector_def minInt_def maxInt_def)
    from a b c d show "(suf = ''prev'' \<or> suf = ''previous'' \<longrightarrow>
         ParseVersionedPath (base @ ''@'' @ suf) = (base, Previous)) \<and>
      (isIntLiteral suf \<and> 0 < intLiteralValue suf \<and> intLiteralValue suf \<le> maxInt \<longrightarrow>
         ParseVersionedPath (base @ ''@'' @ suf) = (base, Exact (intLiteralValue suf))) \<and>
      (isIntLiteral suf \<and> - maxInt \<le> intLiteralValue suf \<and> intLiteralValue suf < 0 \<longrightarrow>
         ParseVersionedPath (base @ ''@'' @ suf) = (base, ChangesAgoSel (- intLiteralValue suf))) \<and>
      (suf \<noteq> ''prev'' \<and> suf \<noteq> ''previous'' \<and>
       (\<not> isIntLiteral suf \<or> intLiteralValue suf = 0 \<or> maxInt < intLiteralValue suf
          \<or> intLiteralValue suf < minInt) \<longrightarrow>
         ParseVersionedPath (base @ ''@'' @ suf) = (base @ ''@'' @ suf, NoSelector))"
      by blast
  qed
  have e1: "ParseVersionedPath ''p@3'' = (''p'', Exact 3)"
    by (simp add: ParseVersionedPath_def LastIndex_def Atoi_def digitVal_def Exact_def
          zeroSpec_def maxInt_def)
  have e2: "ParseVersionedPath ''p@prev'' = (''p'', Previous)"
    by (simp add: ParseVersionedPath_def LastIndex_def Previous_def zeroSpec_def)
  have e3: "ParseVersionedPath ''p@-2'' = (''p'', ChangesAgoSel 2)"
    by (simp add: ParseVersionedPath_def LastIndex_def Atoi_def digitVal_def ChangesAgoSel_def
          zeroSpec_def neg64_def wrap64_def)
  have e4: "ParseVersionedPath ''p@0'' = (''p@0'', NoSelector)"
    by (simp add: ParseVersionedPath_def LastIndex_def Atoi_def digitVal_def NoSelector_def
          zeroSpec_def maxInt_def)
  have e5: "ParseVersionedPath ''user@example.com'' = (''user@example.com'', NoSelector)"
    by (simp add: ParseVersionedPath_def LastIndex_def Atoi_def digitVal_def NoSelector_def
          zeroSpec_def)
  from plain suffix e1 e2 e3 e4 e5 show ?thesis by blast
qed

text \<open>
  The statement of C8 used at inputs that satisfy its hypotheses: a plain path, a
  signed positive literal, a negative literal, \<^verbatim>\<open>previous\<close>, and a suffix that is no
  version.
\<close>

theorem ParseVersionedPath_suffix_grammar_witness:
  "CHR ''@'' \<notin> set ''secret/app'' \<and>
   ParseVersionedPath ''secret/app'' = (''secret/app'', NoSelector) \<and>
   CHR ''@'' \<notin> set ''+07'' \<and> isIntLiteral ''+07'' \<and> 0 < intLiteralValue ''+07'' \<and>
   intLiteralValue ''+07'' \<le> maxInt \<and>
   ParseVersionedPath ''secret/app@+07'' = (''secret/app'', Exact 7) \<and>
   CHR ''@'' \<notin> set ''-12'' \<and> isIntLiteral ''-12'' \<and> - maxInt \<le> intLiteralValue ''-12'' \<and>
   intLiteralValue ''-12'' < 0 \<and>
   ParseVersionedPath ''secret/app@-12'' = (''secret/app'', ChangesAgoSel 12) \<and>
   CHR ''@'' \<notin> set ''previous'' \<and>
   ParseVersionedPath ''secret/app@previous'' = (''secret/app'', Previous) \<and>
   CHR ''@'' \<notin> set ''domain.com'' \<and> \<not> isIntLiteral ''domain.com'' \<and>
   ParseVersionedPath ''secret/email@domain.com'' = (''secret/email@domain.com'', NoSelector)"
proof -
  have lit: "isIntLiteral ''+07''" "intLiteralValue ''+07'' = 7"
      "isIntLiteral ''-12''" "intLiteralValue ''-12'' = - 12" "\<not> isIntLiteral ''domain.com''"
    by (simp_all add: isIntLiteral_def intLiteralValue_def digitsValue_def isDigit_def
          less_eq_char_def)
  show ?thesis
    using ParseVersionedPath_suffix_grammar[of "''secret/app''" "''+07''" "''secret/app''"]
      ParseVersionedPath_suffix_grammar[of "''secret/app''" "''-12''" "''secret/app''"]
      ParseVersionedPath_suffix_grammar[of "''secret/app''" "''previous''" "''secret/app''"]
      ParseVersionedPath_suffix_grammar[of "''secret/app''" "''domain.com''" "''secret/email''"]
      lit
    by (simp add: maxInt_def)
qed

text \<open>
  Claim C8 as first stated fails: the suffix \<^verbatim>\<open>9223372036854775808\<close> is a positive
  integer, and the path comes back unchanged with no selector, since \<^verbatim>\<open>Atoi\<close> reports a
  range error.
\<close>

theorem ParseVersionedPath_out_of_range_counterexample:
  "isIntLiteral ''9223372036854775808'' \<and> 0 < intLiteralValue ''9223372036854775808'' \<and>
   ParseVersionedPath ''p@9223372036854775808'' = (''p@9223372036854775808'', NoSelector) \<and>
   ParseVersionedPath ''p@9223372036854775808''
     \<noteq> (''p'', Exact (intLiteralValue ''9223372036854775808''))"
  by (simp add: ParseVersionedPath_def LastIndex_def Atoi_def digitVal_def NoSelector_def
        zeroSpec_def maxInt_def isIntLiteral_def intLiteralValue_def digitsValue_def isDigit_def
        less_eq_char_def)

section \<open>Properties of \<^verbatim>\<open>CompareSecrets\<close>\<close>

lemma compareFirst_fields:
  "OnlyInFirst (compareFirst sha B r kv) =
     OnlyInFirst r @ (if absentFrom B kv then [\<lparr>Key = fst kv, Value = Sprint (snd kv)\<rparr>] else [])"
  "Changed (compareFirst sha B r kv) =
     Changed r @ (if otherHash sha B kv
        then [\<lparr>ChangedKey = fst kv, FirstLen = int (length (Sprint (snd kv))),
               SecondLen = int (length (Sprint (the (map_of B (fst kv))))),
               FirstValue = Sprint (snd kv),
               SecondValue = Sprint (the (map_of B (fst kv)))\<rparr>] else [])"
  "UnchangedCount (compareFirst sha B r kv) =
     UnchangedCount r + (if sameHash sha B kv then 1 else 0)"
  "OnlyInSecond (compareFirst sha B r kv) = OnlyInSecond r"
  by (simp_all add: compareFirst_def absentFrom_def otherHash_def sameHash_def Let_def
        split: option.split)

lemma foldl_compareFirst_OnlyInFirst:
  "map Key (OnlyInFirst (foldl (compareFirst sha B) r A)) =
     map Key (OnlyInFirst r) @ map fst (filter (absentFrom B) A)"
  by (induction A arbitrary: r) (simp_all add: compareFirst_fields)

lemma foldl_compareFirst_Changed:
  "map ChangedKey (Changed (foldl (compareFirst sha B) r A)) =
     map ChangedKey (Changed r) @ map fst (filter (otherHash sha B) A)"
  by (induction A arbitrary: r) (simp_all add: compareFirst_fields)

lemma foldl_compareFirst_UnchangedCount:
  "UnchangedCount (foldl (compareFirst sha B) r A) =
     UnchangedCount r + int (length (filter (sameHash sha B) A))"
  by (induction A arbitrary: r) (simp_all add: compareFirst_fields)

lemma foldl_compareFirst_OnlyInSecond:
  "OnlyInSecond (foldl (compareFirst sha B) r A) = OnlyInSecond r"
  by (induction A arbitrary: r) (simp_all add: compareFirst_fields)

lemma compareSecond_fields:
  "OnlyInSecond (compareSecond A r kv) =
     OnlyInSecond r @ (if absentFrom A kv then [\<lparr>Key = fst kv, Value = Sprint (snd kv)\<rparr>] else [])"
  "OnlyInFirst (compareSecond A r kv) = OnlyInFirst r"
  "Changed (compareSecond A r kv) = Changed r"
  "UnchangedCount (compareSecond A r kv) = UnchangedCount r"
  by (simp_all add: compareSecond_def absentFrom_def Let_def split: option.split)

lemma foldl_compareSecond_OnlyInSecond:
  "map Key (OnlyInSecond (foldl (compareSecond A) r B)) =
     map Key (OnlyInSecond r) @ map fst (filter (absentFrom A) B)"
  by (induction B arbitrary: r) (simp_all add: compareSecond_fields)

lemma foldl_compareSecond_others:
  "OnlyInFirst (foldl (compareSecond A) r B) = OnlyInFirst r"
  "Changed (foldl (compareSecond A) r B) = Changed r"
  "UnchangedCount (foldl (compareSecond A) r B) = UnchangedCount r"
  by (induction B arbitrary: r) (simp_all add: compareSecond_fields)

lemma sort_key_keys:
  "length (sort_key K xs) = length (map K xs)"
  "set (map K (sort_key K xs)) = set (map K xs)"
  "distinct (map K (sort_key K xs)) = distinct (map K xs)"
  by (simp_all add: distinct_map)

text \<open>The keys of the lists of a diff, up to their order.\<close>

lemma CompareSecrets_sorted:
  "\<exists>L. OnlyInFirst (CompareSecrets sha A B) = sort_key Key L \<and>
       map Key L = map fst (filter (absentFrom B) A)"
  "\<exists>L. Changed (CompareSecrets sha A B) = sort_key ChangedKey L \<and>
       map ChangedKey L = map fst (filter (otherHash sha B) A)"
  "\<exists>L. OnlyInSecond (CompareSecrets sha A B) = sort_key Key L \<and>
       map Key L = map fst (filter (absentFrom A) B)"
proof -
  let ?r0 = "\<lparr>OnlyInFirst = [], OnlyInSecond = [], Changed = [], UnchangedCount = 0\<rparr>"
  let ?r1 = "foldl (compareFirst sha B) ?r0 A"
  let ?r2 = "foldl (compareSecond A) ?r1 B"
  have "OnlyInFirst (CompareSecrets sha A B) = sort_key Key (OnlyInFirst ?r1)"
    by (simp add: CompareSecrets_def Let_def foldl_compareSecond_others)
  moreover have "map Key (OnlyInFirst ?r1) = map fst (filter (absentFrom B) A)"
    by (simp add: foldl_compareFirst_OnlyInFirst)
  ultimately show "\<exists>L. OnlyInFirst (CompareSecrets sha A B) = sort_key Key L \<and>
       map Key L = map fst (filter (absentFrom B) A)"
    by blast
  have "Changed (CompareSecrets sha A B) = sort_key ChangedKey (Changed ?r1)"
    by (simp add: CompareSecrets_def Let_def foldl_compareSecond_others)
  moreover have "map ChangedKey (Changed ?r1) = map fst (filter (otherHash sha B) A)"
    by (simp add: foldl_compareFirst_Changed)
  ultimately show "\<exists>L. Changed (CompareSecrets sha A B) = sort_key ChangedKey L \<and>
       map ChangedKey L = map fst (filter (otherHash sha B) A)"
    by blast
  have "OnlyInSecond (CompareSecrets sha A B) = sort_key Key (OnlyInSecond ?r2)"
    by (simp add: CompareSecrets_def Let_def)
  moreover have "map Key (OnlyInSecond ?r2) = map fst (filter (absentFrom A) B)"
    by (simp add: foldl_compareSecond_OnlyInSecond foldl_compareFirst_OnlyInSecond)
  ultimately show "\<exists>L. OnlyInSecond (CompareSecrets sha A B) = sort_key Key L \<and>
       map Key L = map fst (filter (absentFrom A) B)"
    by blast
qed

lemma CompareSecrets_UnchangedCount:
  "UnchangedCount (CompareSecrets sha A B) = int (length (filter (sameHash sha B) A))"
  by (simp add: CompareSecrets_def Let_def foldl_compareFirst_UnchangedCount
        foldl_compareSecond_others)

lemma CompareSecrets_lengths:
  "length (OnlyInFirst (CompareSecrets sha A B)) = length (filter (absentFrom B) A)"
  "length (Changed (CompareSecrets sha A B)) = length (filter (otherHash sha B) A)"
  "length (OnlyInSecond (CompareSecrets sha A B)) = length (filter (absentFrom A) B)"
  using CompareSecrets_sorted[of sha A B] sort_key_keys(1)
  by (metis length_map)+

lemma CompareSecrets_key_sets:
  "set (map Key (OnlyInFirst (CompareSecrets sha A B))) = fst ` set (filter (absentFrom B) A)"
  "set (map ChangedKey (Changed (CompareSecrets sha A B))) = fst ` set (filter (otherHash sha B) A)"
  "set (map Key (OnlyInSecond (CompareSecrets sha A B))) = fst ` set (filter (absentFrom A) B)"
  using CompareSecrets_sorted[of sha A B] sort_key_keys(2)
  by (metis set_map)+

lemma CompareSecrets_OnlyInSecond_distinct:
  assumes "distinct (map fst B)"
  shows "distinct (map Key (OnlyInSecond (CompareSecrets sha A B)))"
proof -
  obtain L where L: "OnlyInSecond (CompareSecrets sha A B) = sort_key Key L"
      "map Key L = map fst (filter (absentFrom A) B)"
    using CompareSecrets_sorted(3)[of sha A B] by blast
  have "distinct (map fst (filter (absentFrom A) B))"
    using assms by (simp add: distinct_map_filter)
  then show ?thesis using L by (simp add: sort_key_keys(3))
qed

lemma classify_partition:
  "length (filter (absentFrom B) A) + length (filter (otherHash sha B) A)
     + length (filter (sameHash sha B) A) = length A"
  by (induction A) (auto simp: absentFrom_def otherHash_def sameHash_def split: option.split)

lemma absent_keys: "fst ` set (filter (absentFrom A) B) = fst ` set B - fst ` set A"
  by (auto simp: absentFrom_def map_of_eq_None_iff image_iff)

text \<open>
  Claim C9.  For two maps \<open>A\<close> and \<open>B\<close> (association lists with distinct keys),
  \<^verbatim>\<open>CompareSecrets\<close> classifies every key exactly once: the sizes of \<open>OnlyInFirst\<close> and
  \<open>Changed\<close> plus the unchanged count give the number of keys of \<open>A\<close>, \<open>OnlyInSecond\<close>
  holds exactly the keys of \<open>B\<close> that are absent from \<open>A\<close>, each once, and the four
  numbers add up to the number of keys of \<open>A \<union> B\<close>.
\<close>

theorem CompareSecrets_classifies_each_key_once:
  assumes "distinct (map fst A)" and "distinct (map fst B)"
  shows "int (length (OnlyInFirst (CompareSecrets sha A B)))
           + int (length (Changed (CompareSecrets sha A B)))
           + UnchangedCount (CompareSecrets sha A B) = int (card (fst ` set A)) \<and>
         set (map Key (OnlyInSecond (CompareSecrets sha A B))) = fst ` set B - fst ` set A \<and>
         distinct (map Key (OnlyInSecond (CompareSecrets sha A B))) \<and>
         int (length (OnlyInFirst (CompareSecrets sha A B)))
           + int (length (OnlyInSecond (CompareSecrets sha A B)))
           + int (length (Changed (CompareSecrets sha A B)))
           + UnchangedCount (CompareSecrets sha A B) = int (card (fst ` set A \<union> fst ` set B))"
proof -
  let ?r = "CompareSecrets sha A B"
  have cardA: "card (fst ` set A) = length A"
    using assms(1) distinct_card[of "map fst A"] by simp
  have first: "int (length (OnlyInFirst ?r)) + int (length (Changed ?r)) + UnchangedCount ?r
      = int (card (fst ` set A))"
    using classify_partition[of B A sha]
    by (simp add: CompareSecrets_lengths CompareSecrets_UnchangedCount cardA)
  have keys2: "set (map Key (OnlyInSecond ?r)) = fst ` set B - fst ` set A"
    by (simp only: CompareSecrets_key_sets absent_keys)
  have dist2: "distinct (map Key (OnlyInSecond ?r))"
    using assms(2) by (rule CompareSecrets_OnlyInSecond_distinct)
  have "card (fst ` set B - fst ` set A) = length (OnlyInSecond ?r)"
    using dist2 keys2 distinct_card[of "map Key (OnlyInSecond ?r)"] by simp
  moreover have "card (fst ` set A \<union> fst ` set B)
      = card (fst ` set A) + card (fst ` set B - fst ` set A)"
    by (metis List.finite_set Un_Diff_cancel card_Un_disjoint finite_Diff finite_imageI Diff_disjoint)
  ultimately have total: "int (length (OnlyInFirst ?r)) + int (length (OnlyInSecond ?r))
      + int (length (Changed ?r)) + UnchangedCount ?r = int (card (fst ` set A \<union> fst ` set B))"
    using first by simp
  from first keys2 dist2 total show ?thesis by blast
qed

text \<open>
  The statement of C9 used on the "complex scenario" of the repository's unit test.
\<close>

theorem CompareSecrets_classifies_each_key_once_witness:
  "distinct (map fst [(''a'', AStr ''1''), (''b'', AStr ''old''), (''c'', AStr ''3'')]) \<and>
   distinct (map fst [(''a'', AStr ''1''), (''b'', AStr ''new''), (''d'', AStr ''4'')]) \<and>
   int (length (OnlyInFirst (CompareSecrets id
         [(''a'', AStr ''1''), (''b'', AStr ''old''), (''c'', AStr ''3'')]
         [(''a'', AStr ''1''), (''b'', AStr ''new''), (''d'', AStr ''4'')])))
     + int (length (OnlyInSecond (CompareSecrets id
         [(''a'', AStr ''1''), (''b'', AStr ''old''), (''c'', AStr ''3'')]
         [(''a'', AStr ''1''), (''b'', AStr ''new''), (''d'', AStr ''4'')])))
     + int (length (Changed (CompareSecrets id
         [(''a'', AStr ''1''), (''b'', AStr ''old''), (''c'', AStr ''3'')]
         [(''a'', AStr ''1''), (''b'', AStr ''new''), (''d'', AStr ''4'')])))
     + UnchangedCount (CompareSecrets id
         [(''a'', AStr ''1''), (''b'', AStr ''old''), (''c'', AStr ''3'')]
         [(''a'', AStr ''1''), (''b'', AStr ''new''), (''d'', AStr ''4'')])
     = int (card (fst ` set [(''a'', AStr ''1''), (''b'', AStr ''old''), (''c'', AStr ''3'')]
                  \<union> fst ` set [(''a'', AStr ''1''), (''b'', AStr ''new''), (''d'', AStr ''4'')]))"
proof -
  have d1: "distinct (map fst [(''a'', AStr ''1''), (''b'', AStr ''old''), (''c'', AStr ''3'')])"
    by simp
  have d2: "distinct (map fst [(''a'', AStr ''1''), (''b'', AStr ''new''), (''d'', AStr ''4'')])"
    by simp
  show ?thesis
    using CompareSecrets_classifies_each_key_once[OF d1 d2, of id] d1 d2 by blast
qed


lemma sameHash_keys:
  assumes "distinct (map fst A)"
  shows "fst ` set (filter (sameHash sha B) A) =
     {k. \<exists>a b. map_of A k = Some a \<and> map_of B k = Some b \<and> hashValue sha a = hashValue sha b}"
proof (intro set_eqI iffI)
  fix k
  assume "k \<in> fst ` set (filter (sameHash sha B) A)"
  then obtain a where a: "(k, a) \<in> set A" "sameHash sha B (k, a)"
    by auto
  from a(1) assms have "map_of A k = Some a"
    by simp
  moreover from a(2) obtain b where "map_of B k = Some b" "hashValue sha a = hashValue sha b"
    by (auto simp: sameHash_def split: option.splits)
  ultimately show "k \<in> {k. \<exists>a b. map_of A k = Some a \<and> map_of B k = Some b
      \<and> hashValue sha a = hashValue sha b}"
    by blast
next
  fix k
  assume "k \<in> {k. \<exists>a b. map_of A k = Some a \<and> map_of B k = Some b
      \<and> hashValue sha a = hashValue sha b}"
  then obtain a b where ab: "map_of A k = Some a" "map_of B k = Some b"
      "hashValue sha a = hashValue sha b"
    by blast
  from ab(1) have "(k, a) \<in> set A"
    by (rule map_of_SomeD)
  moreover have "sameHash sha B (k, a)"
    using ab by (simp add: sameHash_def)
  ultimately show "k \<in> fst ` set (filter (sameHash sha B) A)"
    by force
qed

text \<open>
  Claim C10.  \<^verbatim>\<open>CompareSecrets\<close> compares the digests of the renderings: a key present in
  both maps whose two values render to the same string is in none of the three lists
  and is one of the keys that the unchanged count counts, whatever the digest function
  is and whatever the dynamic types of the two values are.  The integer \<open>1\<close> and the
  string \<open>"1"\<close> render alike, and diffing them under one key reports one unchanged
  key and nothing else.
\<close>

theorem CompareSecrets_equal_rendering_unchanged:
  assumes "distinct (map fst A)"
    and "map_of A k = Some v1" and "map_of B k = Some v2"
    and "Sprint v1 = Sprint v2"
  shows "k \<notin> set (map ChangedKey (Changed (CompareSecrets sum256 A B))) \<and>
         k \<notin> set (map Key (OnlyInFirst (CompareSecrets sum256 A B))) \<and>
         k \<notin> set (map Key (OnlyInSecond (CompareSecrets sum256 A B))) \<and>
         k \<in> {k. \<exists>a b. map_of A k = Some a \<and> map_of B k = Some b
                 \<and> hashValue sum256 a = hashValue sum256 b} \<and>
         UnchangedCount (CompareSecrets sum256 A B) =
           int (card {k. \<exists>a b. map_of A k = Some a \<and> map_of B k = Some b
                 \<and> hashValue sum256 a = hashValue sum256 b}) \<and>
         Sprint (AInt 1) = Sprint (AStr ''1'') \<and>
         CompareSecrets sum256 [(''k'', AInt 1)] [(''k'', AStr ''1'')] =
           \<lparr>OnlyInFirst = [], OnlyInSecond = [], Changed = [], UnchangedCount = 1\<rparr>"
proof -
  let ?r = "CompareSecrets sum256 A B"
  let ?S = "{k. \<exists>a b. map_of A k = Some a \<and> map_of B k = Some b
                 \<and> hashValue sum256 a = hashValue sum256 b}"
  have hash: "hashValue sum256 v1 = hashValue sum256 v2"
    using assms(4) by (simp add: hashValue_def)
  have inA: "(k, v1) \<in> set A"
    using assms(2) by (rule map_of_SomeD)
  have only: "\<And>v. (k, v) \<in> set A \<Longrightarrow> v = v1"
    using assms(1,2) by simp
  have changed: "k \<notin> set (map ChangedKey (Changed ?r))"
  proof
    assume "k \<in> set (map ChangedKey (Changed ?r))"
    then have "k \<in> fst ` set (filter (otherHash sum256 B) A)"
      by (simp only: CompareSecrets_key_sets)
    then obtain v where "(k, v) \<in> set A" "otherHash sum256 B (k, v)"
      by auto
    with only have "otherHash sum256 B (k, v1)"
      by blast
    with assms(3) hash show False
      by (simp add: otherHash_def)
  qed
  have "k \<notin> fst ` set (filter (absentFrom B) A)"
    using assms(3) by (auto simp: absentFrom_def)
  then have first: "k \<notin> set (map Key (OnlyInFirst ?r))"
    unfolding CompareSecrets_key_sets .
  have "k \<notin> fst ` set B - fst ` set A"
    using inA by force
  then have second: "k \<notin> set (map Key (OnlyInSecond ?r))"
    unfolding CompareSecrets_key_sets absent_keys .
  have mem: "k \<in> ?S"
    using assms(2,3) hash by blast
  have "distinct (map fst (filter (sameHash sum256 B) A))"
    using assms(1) by (simp add: distinct_map_filter)
  then have "card (set (map fst (filter (sameHash sum256 B) A)))
      = length (map fst (filter (sameHash sum256 B) A))"
    by (rule distinct_card)
  then have "card (fst ` set (filter (sameHash sum256 B) A)) = length (filter (sameHash sum256 B) A)"
    by (simp only: set_map length_map)
  then have "card ?S = length (filter (sameHash sum256 B) A)"
    unfolding sameHash_keys[OF assms(1)] .
  then have count: "UnchangedCount ?r = int (card ?S)"
    by (simp only: CompareSecrets_UnchangedCount)
  have render: "Sprint (AInt 1) = Sprint (AStr ''1'')"
    by simp
  have example: "CompareSecrets sum256 [(''k'', AInt 1)] [(''k'', AStr ''1'')] =
      \<lparr>OnlyInFirst = [], OnlyInSecond = [], Changed = [], UnchangedCount = 1\<rparr>"
    by (simp add: CompareSecrets_def compareFirst_def compareSecond_def hashValue_def Let_def)
  from changed first second mem count render example show ?thesis
    by blast
qed

text \<open>
  The statement of C10 used on a key that holds the integer \<open>1\<close> in one map and the
  string \<open>"1"\<close> in the other.
\<close>

theorem CompareSecrets_equal_rendering_unchanged_witness:
  "distinct (map fst [(''port'', AInt 1), (''user'', AStr ''root'')]) \<and>
   map_of [(''port'', AInt 1), (''user'', AStr ''root'')] ''port'' = Some (AInt 1) \<and>
   map_of [(''port'', AStr ''1''), (''user'', AStr ''admin'')] ''port'' = Some (AStr ''1'') \<and>
   Sprint (AInt 1) = Sprint (AStr ''1'') \<and>
   ''port'' \<notin> set (map ChangedKey (Changed (CompareSecrets id
       [(''port'', AInt 1), (''user'', AStr ''root'')]
       [(''port'', AStr ''1''), (''user'', AStr ''admin'')]))) \<and>
   UnchangedCount (CompareSecrets id
       [(''port'', AInt 1), (''user'', AStr ''root'')]
       [(''port'', AStr ''1''), (''user'', AStr ''admin'')]) = 1"
proof -
  have h1: "distinct (map fst [(''port'', AInt 1), (''user'', AStr ''root'')])"
    by simp
  have h2: "map_of [(''port'', AInt 1), (''user'', AStr ''root'')] ''port'' = Some (AInt 1)"
    by simp
  have h3: "map_of [(''port'', AStr ''1''), (''user'', AStr ''admin'')] ''port'' = Some (AStr ''1'')"
    by simp
  have h4: "Sprint (AInt 1) = Sprint (AStr ''1'')"
    by simp
  have count: "UnchangedCount (CompareSecrets id
       [(''port'', AInt 1), (''user'', AStr ''root'')]
       [(''port'', AStr ''1''), (''user'', AStr ''admin'')]) = 1"
    by (simp add: CompareSecrets_def compareFirst_def compareSecond_def hashValue_def Let_def
          EncodeToString_def)
  show ?thesis
    using CompareSecrets_equal_rendering_unchanged[OF h1 h2 h3 h4, of id] h1 h2 h3 h4 count
    by blast
qed

section \<open>Properties of \<^verbatim>\<open>RestoreSnapshot\<close>\<close>

lemmas restore_defs =
  RestoreSnapshot_def restoreSecret_def verifyMismatch_def sameValue_def
  storeListSecretPaths_def storeGetMetadata_def storeReadSecretRaw_def storeWriteSecret_def
  storeDeleteSecret_def stripPrefix_def unwrapValue_def snapshotCompareValue_def writeData_def
  scenarioSnapshot_def scenarioStore_def List.map_filter_def Let_def

text \<open>
  Claim C7.  With the snapshot \<open>{a:"1", b:"2"}\<close>, the live state \<open>{a:"1", c:"3"}\<close> and
  \<^verbatim>\<open>DeleteExtra\<close> set, the plan is added \<open>[b]\<close>, updated \<open>[]\<close>, deleted \<open>[c]\<close>, unchanged
  \<open>[a]\<close>, with nothing skipped: in a dry run and in a real run, for any recorded
  versions without \<^verbatim>\<open>Verify\<close>, and with \<^verbatim>\<open>Verify\<close> when the snapshot records the live
  version of \<open>a\<close>, whichever metadata the store refuses to read.
\<close>

theorem RestoreSnapshot_scenario_plan:
  "fst (RestoreSnapshot unreadable (scenarioStore va vc) (scenarioSnapshot wa wb) ''secret/app''
          \<lparr>DryRun = dry, Verify = False, DeleteExtra = True\<rparr>) =
     Inr \<lparr>Added = [''b''], Updated = [], Deleted = [''c''], Unchanged = [''a''], Skipped = []\<rparr> \<and>
   fst (RestoreSnapshot unreadable (scenarioStore va vc) (scenarioSnapshot va wb) ''secret/app''
          \<lparr>DryRun = dry, Verify = True, DeleteExtra = True\<rparr>) =
     Inr \<lparr>Added = [''b''], Updated = [], Deleted = [''c''], Unchanged = [''a''], Skipped = []\<rparr>"
  by (cases dry) (simp_all add: restore_defs)

lemma map_of_update: "map_of (AList.update p v st) q = (if q = p then Some v else map_of st q)"
  by (simp add: update_conv')

lemma map_of_delete: "map_of (AList.delete p st) q = (if q = p then None else map_of st q)"
  by (simp add: delete_conv')

lemma target_path_inj: "(t @ ''/'' @ a = t @ ''/'' @ b) = (a = b)"
  by simp

lemma target_path_image: "t @ ''/'' @ k \<in> (\<lambda>x. t @ ''/'' @ x) ` S \<longleftrightarrow> k \<in> S"
  by auto

lemma stripPrefix_Some: "stripPrefix p s = Some r \<longleftrightarrow> s = p @ r"
proof
  assume "stripPrefix p s = Some r"
  then have "take (length p) s = p" "drop (length p) s = r"
    by (simp_all add: stripPrefix_def split: if_splits)
  then show "s = p @ r"
    using append_take_drop_id[of "length p" s] by simp
next
  assume "s = p @ r"
  then show "stripPrefix p s = Some r"
    by (simp add: stripPrefix_def)
qed

lemma set_map_filter_iff:
  "x \<in> set (List.map_filter f xs) \<longleftrightarrow> (\<exists>y \<in> set xs. f y = Some x)"
  by (induction xs) (auto simp: List.map_filter_simps split: option.splits)

lemma listing_set:
  assumes "storeListSecretPaths st t = Inr paths"
  shows "set paths = {k. liveAt st t k \<noteq> None}"
proof -
  have paths: "paths = List.map_filter (\<lambda>kv. stripPrefix (t @ ''/'') (fst kv)) st"
    using assms by (simp add: storeListSecretPaths_def)
  have "k \<in> set paths \<longleftrightarrow> liveAt st t k \<noteq> None" for k
  proof -
    have "k \<in> set paths \<longleftrightarrow> (\<exists>kv \<in> set st. fst kv = (t @ ''/'') @ k)"
      unfolding paths set_map_filter_iff stripPrefix_Some ..
    also have "\<dots> \<longleftrightarrow> (t @ ''/'') @ k \<in> fst ` set st"
      by force
    also have "\<dots> \<longleftrightarrow> liveAt st t k \<noteq> None"
      by (simp add: liveAt_def map_of_eq_None_iff)
    finally show ?thesis .
  qed
  then show ?thesis by blast
qed

lemma initial_currentSet:
  "map_of (foldl (\<lambda>set p. AList.update p True set) cs paths) k =
     (if k \<in> set paths then Some True else map_of cs k)"
  by (induction paths arbitrary: cs) (auto simp: map_of_update)

lemma sameValue_cong:
  "map_of st p = map_of st' p \<Longrightarrow> sameValue st p ss = sameValue st' p ss"
  by (simp add: sameValue_def storeReadSecretRaw_def)

lemma settled_cong:
  "liveAt st t (fst e) = liveAt st' t (fst e) \<Longrightarrow> settled unreadable opts st t e = settled unreadable opts st' t e"
  using sameValue_cong[of st "t @ ''/'' @ fst e" st' "snd e"]
  by (simp add: settled_def liveAt_def split: option.split)

lemma unwrap_written: "unwrapValue (writeData v) = snapshotCompareValue v"
  by (cases v) (simp_all add: writeData_def snapshotCompareValue_def unwrapValue_def)

lemma sameValue_written:
  "map_of st p = Some \<lparr>StoredVersion = n, StoredData = writeData (SecretValue ss)\<rparr>
     \<Longrightarrow> sameValue st p ss"
  by (simp add: sameValue_def storeReadSecretRaw_def unwrap_written)


lemma exists_linked:
  "linked cs st t k \<Longrightarrow>
     (case map_of cs k of Some b \<Rightarrow> b | None \<Rightarrow> False) = (liveAt st t k \<noteq> None)"
  by (simp add: linked_def)

lemma verifyMismatch_store:
  "verifyMismatch unreadable opts st (t @ ''/'' @ k) (liveAt st t k \<noteq> None) ss =
     Inr (Verify opts \<and> t @ ''/'' @ k \<notin> set unreadable
            \<and> (\<exists>live. liveAt st t k = Some live
            \<and> StoredVersion live \<noteq> SecretVersion ss))"
  by (cases "liveAt st t k") (simp_all add: verifyMismatch_def storeGetMetadata_def liveAt_def)

text \<open>One round of the loop over the snapshot, on a store whose calls succeed.\<close>

lemma restoreSecret_linked:
  assumes "linked cs st t k"
  shows "restoreSecret unreadable opts t (r, cs, st) (k, ss) =
     (if Verify opts \<and> t @ ''/'' @ k \<notin> set unreadable
            \<and> (\<exists>live. liveAt st t k = Some live
            \<and> StoredVersion live \<noteq> SecretVersion ss)
      then (None, r\<lparr>Skipped := Skipped r @ [k]\<rparr>, AList.delete k cs, st)
      else if liveAt st t k \<noteq> None \<and> sameValue st (t @ ''/'' @ k) ss
      then (None, r\<lparr>Unchanged := Unchanged r @ [k]\<rparr>, AList.delete k cs, st)
      else (None,
            (if liveAt st t k \<noteq> None then r\<lparr>Updated := Updated r @ [k]\<rparr>
             else r\<lparr>Added := Added r @ [k]\<rparr>),
            AList.delete k cs,
            (if \<not> DryRun opts
             then AList.update (t @ ''/'' @ k)
                    \<lparr>StoredVersion = (case liveAt st t k of None \<Rightarrow> 1
                                       | Some s \<Rightarrow> StoredVersion s + 1),
                     StoredData = writeData (SecretValue ss)\<rparr> st
             else st)))"
  unfolding restoreSecret_def Let_def fst_conv snd_conv exists_linked[OF assms]
    verifyMismatch_store
  by (auto simp: storeWriteSecret_def liveAt_def split: bool.split)

lemma step_skip:
  assumes "linked cs st t k" and "Verify opts" and "liveAt st t k = Some live"
    and "StoredVersion live \<noteq> SecretVersion ss"
    and "t @ ''/'' @ k \<notin> set unreadable"
  shows "restoreSecret unreadable opts t (r, cs, st) (k, ss) =
     (None, r\<lparr>Skipped := Skipped r @ [k]\<rparr>, AList.delete k cs, st)"
  using assms(2-5) by (simp add: restoreSecret_linked[OF assms(1)])


lemma step_general:
  assumes "linked cs st t k"
  shows "\<exists>r' st'. restoreSecret unreadable opts t (r, cs, st) (k, ss) = (None, r', AList.delete k cs, st')
     \<and> (\<forall>p. p \<noteq> t @ ''/'' @ k \<longrightarrow> map_of st' p = map_of st p)
     \<and> (\<not> DryRun opts \<longrightarrow> settled unreadable opts st' t (k, ss))
     \<and> Deleted r' = Deleted r
     \<and> (\<forall>x. x \<noteq> k \<longrightarrow>
          (x \<in> set (Added r') \<longleftrightarrow> x \<in> set (Added r)) \<and>
          (x \<in> set (Updated r') \<longleftrightarrow> x \<in> set (Updated r)) \<and>
          (x \<in> set (Unchanged r') \<longleftrightarrow> x \<in> set (Unchanged r)) \<and>
          (x \<in> set (Skipped r') \<longleftrightarrow> x \<in> set (Skipped r)))"
proof -
  let ?skip = "Verify opts \<and> t @ ''/'' @ k \<notin> set unreadable
            \<and> (\<exists>live. liveAt st t k = Some live
            \<and> StoredVersion live \<noteq> SecretVersion ss)"
  let ?same = "liveAt st t k \<noteq> None \<and> sameValue st (t @ ''/'' @ k) ss"
  consider (skipped) "?skip" | (same) "\<not> ?skip" "?same" | (written) "\<not> ?skip" "\<not> ?same"
    by blast
  then show ?thesis
  proof cases
    case skipped
    then have "settled unreadable opts st t (k, ss)"
      by (auto simp: settled_def)
    with skipped show ?thesis
      by (simp add: restoreSecret_linked[OF assms])
  next
    case same
    then have "settled unreadable opts st t (k, ss)"
      by (auto simp: settled_def)
    with same show ?thesis
      by (simp add: restoreSecret_linked[OF assms])
  next
    case written
    let ?new = "\<lparr>StoredVersion = (case liveAt st t k of None \<Rightarrow> 1
                                       | Some s \<Rightarrow> StoredVersion s + 1),
                     StoredData = writeData (SecretValue ss)\<rparr>"
    let ?st' = "AList.update (t @ ''/'' @ k) ?new st"
    have "map_of ?st' (t @ ''/'' @ k) = Some ?new"
      by (simp add: map_of_update)
    then have "settled unreadable opts ?st' t (k, ss)"
      using sameValue_written[of ?st' "t @ ''/'' @ k" _ ss]
      by (simp add: settled_def liveAt_def)
    with written show ?thesis
      by (auto simp: restoreSecret_linked[OF assms] map_of_update)
  qed
qed


lemma linked_after_step:
  assumes "linked cs st t k'" and "k' \<noteq> k"
    and "\<forall>p. p \<noteq> t @ ''/'' @ k \<longrightarrow> map_of st' p = map_of st p"
  shows "linked (AList.delete k cs) st' t k'"
  using assms by (simp add: linked_def liveAt_def map_of_delete)

text \<open>The loop over the snapshot's secrets, on a store whose calls succeed.\<close>

lemma restoreSecrets_general:
  assumes "distinct (map fst es)" and "\<forall>k \<in> fst ` set es. linked cs st t k"
  shows "\<exists>r' cs' st'. restoreSecrets unreadable opts t (r, cs, st) es = (None, r', cs', st')
     \<and> (\<forall>x. map_of cs' x = (if x \<in> fst ` set es then None else map_of cs x))
     \<and> (\<forall>p. p \<notin> (\<lambda>k. t @ ''/'' @ k) ` fst ` set es \<longrightarrow> map_of st' p = map_of st p)
     \<and> (\<not> DryRun opts \<longrightarrow> (\<forall>e \<in> set es. settled unreadable opts st' t e))
     \<and> Deleted r' = Deleted r
     \<and> (\<forall>x. x \<notin> fst ` set es \<longrightarrow>
          (x \<in> set (Added r') \<longleftrightarrow> x \<in> set (Added r)) \<and>
          (x \<in> set (Updated r') \<longleftrightarrow> x \<in> set (Updated r)) \<and>
          (x \<in> set (Unchanged r') \<longleftrightarrow> x \<in> set (Unchanged r)) \<and>
          (x \<in> set (Skipped r') \<longleftrightarrow> x \<in> set (Skipped r)))"
  using assms
proof (induction es arbitrary: r cs st)
  case Nil
  show ?case by simp
next
  case (Cons e es)
  obtain k ss where e: "e = (k, ss)"
    by (cases e)
  from Cons.prems have lk: "linked cs st t k" and knew: "k \<notin> fst ` set es"
    and dist: "distinct (map fst es)"
    by (auto simp: e)
  from step_general[OF lk, of unreadable opts r ss] obtain r1 st1 where
    step: "restoreSecret unreadable opts t (r, cs, st) (k, ss) = (None, r1, AList.delete k cs, st1)"
    and frame1: "\<forall>p. p \<noteq> t @ ''/'' @ k \<longrightarrow> map_of st1 p = map_of st p"
    and settled1: "\<not> DryRun opts \<longrightarrow> settled unreadable opts st1 t (k, ss)"
    and del1: "Deleted r1 = Deleted r"
    and lists1: "\<forall>x. x \<noteq> k \<longrightarrow>
          (x \<in> set (Added r1) \<longleftrightarrow> x \<in> set (Added r)) \<and>
          (x \<in> set (Updated r1) \<longleftrightarrow> x \<in> set (Updated r)) \<and>
          (x \<in> set (Unchanged r1) \<longleftrightarrow> x \<in> set (Unchanged r)) \<and>
          (x \<in> set (Skipped r1) \<longleftrightarrow> x \<in> set (Skipped r))"
    by blast
  have linked1: "\<forall>k' \<in> fst ` set es. linked (AList.delete k cs) st1 t k'"
  proof
    fix k'
    assume k': "k' \<in> fst ` set es"
    with knew have "k' \<noteq> k" by blast
    moreover from k' Cons.prems(2) have "linked cs st t k'" by auto
    ultimately show "linked (AList.delete k cs) st1 t k'"
      using frame1 linked_after_step[of cs st t k' k st1] by blast
  qed
  from Cons.IH[OF dist linked1, of r1] obtain r' cs' st' where
    loop: "restoreSecrets unreadable opts t (r1, AList.delete k cs, st1) es = (None, r', cs', st')"
    and cs': "\<forall>x. map_of cs' x = (if x \<in> fst ` set es then None else map_of (AList.delete k cs) x)"
    and frame: "\<forall>p. p \<notin> (\<lambda>k. t @ ''/'' @ k) ` fst ` set es \<longrightarrow> map_of st' p = map_of st1 p"
    and settled': "\<not> DryRun opts \<longrightarrow> (\<forall>e \<in> set es. settled unreadable opts st' t e)"
    and del': "Deleted r' = Deleted r1"
    and lists': "\<forall>x. x \<notin> fst ` set es \<longrightarrow>
          (x \<in> set (Added r') \<longleftrightarrow> x \<in> set (Added r1)) \<and>
          (x \<in> set (Updated r') \<longleftrightarrow> x \<in> set (Updated r1)) \<and>
          (x \<in> set (Unchanged r') \<longleftrightarrow> x \<in> set (Unchanged r1)) \<and>
          (x \<in> set (Skipped r') \<longleftrightarrow> x \<in> set (Skipped r1))"
    by blast
  have run: "restoreSecrets unreadable opts t (r, cs, st) (e # es) = (None, r', cs', st')"
    by (simp add: e step loop)
  have c1: "\<forall>x. map_of cs' x = (if x \<in> fst ` set (e # es) then None else map_of cs x)"
    using cs' by (auto simp: e map_of_delete)
  have c2: "\<forall>p. p \<notin> (\<lambda>k. t @ ''/'' @ k) ` fst ` set (e # es) \<longrightarrow> map_of st' p = map_of st p"
    using frame frame1 by (auto simp: e)
  have "liveAt st' t k = liveAt st1 t k"
    using frame knew target_path_image[of t k "fst ` set es"] by (simp add: liveAt_def)
  then have "settled unreadable opts st' t (k, ss) = settled unreadable opts st1 t (k, ss)"
    using settled_cong[of st' t "(k, ss)" st1 unreadable opts] by simp
  then have c3: "\<not> DryRun opts \<longrightarrow> (\<forall>e' \<in> set (e # es). settled unreadable opts st' t e')"
    using settled1 settled' by (auto simp: e)
  have c4: "Deleted r' = Deleted r"
    using del' del1 by simp
  have c5: "\<forall>x. x \<notin> fst ` set (e # es) \<longrightarrow>
          (x \<in> set (Added r') \<longleftrightarrow> x \<in> set (Added r)) \<and>
          (x \<in> set (Updated r') \<longleftrightarrow> x \<in> set (Updated r)) \<and>
          (x \<in> set (Unchanged r') \<longleftrightarrow> x \<in> set (Unchanged r)) \<and>
          (x \<in> set (Skipped r') \<longleftrightarrow> x \<in> set (Skipped r))"
    using lists' lists1 by (simp add: e)
  from run c1 c2 c3 c4 c5 show ?case
    by blast
qed


text \<open>The loop over the live secrets that the snapshot does not have.\<close>

lemma deleteExtras_store:
  "\<exists>r' st'. deleteExtras opts t (r, st) cs = (None, r', st')
     \<and> Deleted r' = Deleted r @ map fst cs
     \<and> Added r' = Added r \<and> Updated r' = Updated r
     \<and> Unchanged r' = Unchanged r \<and> Skipped r' = Skipped r
     \<and> (\<forall>p. map_of st' p =
           (if \<not> DryRun opts \<and> p \<in> (\<lambda>k. t @ ''/'' @ k) ` fst ` set cs then None
            else map_of st p))"
proof (induction cs arbitrary: r st)
  case Nil
  show ?case by simp
next
  case (Cons e cs)
  show ?case
  proof (cases "DryRun opts")
    case True
    with Cons.IH[of "r\<lparr>Deleted := Deleted r @ [fst e]\<rparr>" st] show ?thesis
      by (auto simp: Let_def)
  next
    case False
    with Cons.IH[of "r\<lparr>Deleted := Deleted r @ [fst e]\<rparr>" "AList.delete (t @ ''/'' @ fst e) st"]
    show ?thesis
      by (auto simp: Let_def storeDeleteSecret_def map_of_delete)
  qed
qed


lemma initial_linked:
  assumes "storeListSecretPaths st t = Inr paths"
  shows "linked (foldl (\<lambda>set p. AList.update p True set) [] paths) st t k"
  using listing_set[OF assms] by (auto simp: linked_def initial_currentSet)

text \<open>
  Under \<^verbatim>\<open>Verify\<close>, a snapshot entry whose live secret has another version and readable
  metadata ends in \<open>Skipped\<close> and nowhere else, and its secret comes out of the loop as
  it went in.
\<close>

lemma restoreSecrets_skip:
  assumes "distinct (map fst es)" and "\<forall>k \<in> fst ` set es. linked cs st t k"
    and "Verify opts" and "(k, ss) \<in> set es"
    and "liveAt st t k = Some live" and "StoredVersion live \<noteq> SecretVersion ss"
    and "k \<notin> set (Added r)" and "k \<notin> set (Updated r)" and "k \<notin> set (Unchanged r)"
    and "t @ ''/'' @ k \<notin> set unreadable"
  shows "\<exists>r' cs' st'. restoreSecrets unreadable opts t (r, cs, st) es = (None, r', cs', st')
     \<and> k \<in> set (Skipped r') \<and> k \<notin> set (Added r') \<and> k \<notin> set (Updated r')
     \<and> k \<notin> set (Unchanged r') \<and> Deleted r' = Deleted r
     \<and> liveAt st' t k = Some live \<and> map_of cs' k = None"
  using assms
proof (induction es arbitrary: r cs st)
  case Nil
  then show ?case by simp
next
  case (Cons e es)
  obtain k0 ss0 where e: "e = (k0, ss0)"
    by (cases e)
  from Cons.prems have lk: "linked cs st t k0" and knew: "k0 \<notin> fst ` set es"
    and dist: "distinct (map fst es)"
    by (auto simp: e)
  show ?case
  proof (cases "k0 = k")
    case True
    have kes: "k \<notin> fst ` set es"
      using knew True by simp
    with Cons.prems(4) have "ss0 = ss"
      by (force simp: e True)
    with True lk Cons.prems(3,5,6,10) have
      step: "restoreSecret unreadable opts t (r, cs, st) e
               = (None, r\<lparr>Skipped := Skipped r @ [k]\<rparr>, AList.delete k cs, st)"
      by (simp add: e step_skip)
    have linked1: "\<forall>k' \<in> fst ` set es. linked (AList.delete k cs) st t k'"
    proof
      fix k'
      assume k': "k' \<in> fst ` set es"
      with kes have "k' \<noteq> k" by blast
      moreover from k' Cons.prems(2) have "linked cs st t k'" by auto
      ultimately show "linked (AList.delete k cs) st t k'"
        by (simp add: linked_def map_of_delete)
    qed
    from restoreSecrets_general[OF dist linked1, of unreadable opts "r\<lparr>Skipped := Skipped r @ [k]\<rparr>"]
    obtain r' cs' st' where
      loop: "restoreSecrets unreadable opts t (r\<lparr>Skipped := Skipped r @ [k]\<rparr>, AList.delete k cs, st) es
               = (None, r', cs', st')"
      and cs': "\<forall>x. map_of cs' x
                 = (if x \<in> fst ` set es then None else map_of (AList.delete k cs) x)"
      and frame: "\<forall>p. p \<notin> (\<lambda>k. t @ ''/'' @ k) ` fst ` set es \<longrightarrow> map_of st' p = map_of st p"
      and del': "Deleted r' = Deleted (r\<lparr>Skipped := Skipped r @ [k]\<rparr>)"
      and lists': "\<forall>x. x \<notin> fst ` set es \<longrightarrow>
          (x \<in> set (Added r') \<longleftrightarrow> x \<in> set (Added (r\<lparr>Skipped := Skipped r @ [k]\<rparr>))) \<and>
          (x \<in> set (Updated r') \<longleftrightarrow> x \<in> set (Updated (r\<lparr>Skipped := Skipped r @ [k]\<rparr>))) \<and>
          (x \<in> set (Unchanged r') \<longleftrightarrow> x \<in> set (Unchanged (r\<lparr>Skipped := Skipped r @ [k]\<rparr>))) \<and>
          (x \<in> set (Skipped r') \<longleftrightarrow> x \<in> set (Skipped (r\<lparr>Skipped := Skipped r @ [k]\<rparr>)))"
      by blast
    have run: "restoreSecrets unreadable opts t (r, cs, st) (e # es) = (None, r', cs', st')"
      by (simp add: step loop)
    have "liveAt st' t k = liveAt st t k"
      using frame kes target_path_image[of t k "fst ` set es"] by (simp add: liveAt_def)
    moreover have "map_of cs' k = None"
      using cs' by (simp add: map_of_delete)
    moreover have "k \<in> set (Skipped r')" "k \<notin> set (Added r')" "k \<notin> set (Updated r')"
        "k \<notin> set (Unchanged r')"
      using lists' kes Cons.prems(7,8,9) by simp_all
    ultimately show ?thesis
      using run del' Cons.prems(5) by simp
  next
    case False
    from step_general[OF lk, of unreadable opts r ss0] obtain r1 st1 where
      step: "restoreSecret unreadable opts t (r, cs, st) (k0, ss0) = (None, r1, AList.delete k0 cs, st1)"
      and frame1: "\<forall>p. p \<noteq> t @ ''/'' @ k0 \<longrightarrow> map_of st1 p = map_of st p"
      and del1: "Deleted r1 = Deleted r"
      and lists1: "\<forall>x. x \<noteq> k0 \<longrightarrow>
          (x \<in> set (Added r1) \<longleftrightarrow> x \<in> set (Added r)) \<and>
          (x \<in> set (Updated r1) \<longleftrightarrow> x \<in> set (Updated r)) \<and>
          (x \<in> set (Unchanged r1) \<longleftrightarrow> x \<in> set (Unchanged r)) \<and>
          (x \<in> set (Skipped r1) \<longleftrightarrow> x \<in> set (Skipped r))"
      by blast
    have linked1: "\<forall>k' \<in> fst ` set es. linked (AList.delete k0 cs) st1 t k'"
    proof
      fix k'
      assume k': "k' \<in> fst ` set es"
      with knew have "k' \<noteq> k0" by blast
      moreover from k' Cons.prems(2) have "linked cs st t k'" by auto
      ultimately show "linked (AList.delete k0 cs) st1 t k'"
        using frame1 linked_after_step[of cs st t k' k0 st1] by blast
    qed
    have mem: "(k, ss) \<in> set es"
      using Cons.prems(4) False by (simp add: e)
    have live1: "liveAt st1 t k = Some live"
      using frame1 False Cons.prems(5) by (simp add: liveAt_def)
    have notin1: "k \<notin> set (Added r1)" "k \<notin> set (Updated r1)" "k \<notin> set (Unchanged r1)"
      using lists1 False Cons.prems(7,8,9) by simp_all
    from Cons.IH[OF dist linked1 Cons.prems(3) mem live1 Cons.prems(6) notin1 Cons.prems(10)]
    obtain r' cs' st' where
      loop: "restoreSecrets unreadable opts t (r1, AList.delete k0 cs, st1) es = (None, r', cs', st')"
      and concl: "k \<in> set (Skipped r')" "k \<notin> set (Added r')" "k \<notin> set (Updated r')"
        "k \<notin> set (Unchanged r')" "Deleted r' = Deleted r1"
        "liveAt st' t k = Some live" "map_of cs' k = None"
      by blast
    have run: "restoreSecrets unreadable opts t (r, cs, st) (e # es) = (None, r', cs', st')"
      by (simp add: e step loop)
    from run concl del1 show ?thesis
      by simp
  qed
qed

text \<open>
  When the metadata of the secret can be read, \<^verbatim>\<open>RestoreSnapshot\<close> under \<^verbatim>\<open>Verify\<close>
  protects a changed secret: a snapshot secret that is live with a recorded version
  other than the one in its snapshot entry is reported in \<open>Skipped\<close> and in no other
  list, and the store holds for it the same version and data afterwards.
\<close>

lemma verify_skips_when_metadata_is_read:
  assumes "distinct (map fst (Secrets snapshot))"
    and "Verify opts"
    and "(k, ss) \<in> set (Secrets snapshot)"
    and "map_of st (targetPath @ ''/'' @ k) = Some live"
    and "StoredVersion live \<noteq> SecretVersion ss"
    and "targetPath @ ''/'' @ k \<notin> set unreadable"
  shows "\<exists>result st'. RestoreSnapshot unreadable st snapshot targetPath opts = (Inr result, st')
     \<and> k \<in> set (Skipped result)
     \<and> k \<notin> set (Added result) \<and> k \<notin> set (Updated result)
     \<and> k \<notin> set (Unchanged result) \<and> k \<notin> set (Deleted result)
     \<and> map_of st' (targetPath @ ''/'' @ k) = Some live"
proof -
  let ?r0 = "\<lparr>Added = [], Updated = [], Deleted = [], Unchanged = [], Skipped = []\<rparr>"
  obtain paths where paths: "storeListSecretPaths st targetPath = Inr paths"
    by (simp add: storeListSecretPaths_def)
  let ?cs0 = "foldl (\<lambda>set p. AList.update p True set) [] paths"
  have linked0: "\<forall>k \<in> fst ` set (Secrets snapshot). linked ?cs0 st targetPath k"
    using initial_linked[OF paths] by blast
  have live: "liveAt st targetPath k = Some live"
    using assms(4) by (simp add: liveAt_def)
  from restoreSecrets_skip[OF assms(1) linked0 assms(2,3) live assms(5) _ _ _ assms(6), of ?r0]
  obtain r' cs' st' where
    loop: "restoreSecrets unreadable opts targetPath (?r0, ?cs0, st) (Secrets snapshot) = (None, r', cs', st')"
    and concl: "k \<in> set (Skipped r')" "k \<notin> set (Added r')" "k \<notin> set (Updated r')"
      "k \<notin> set (Unchanged r')" "Deleted r' = Deleted ?r0"
      "liveAt st' targetPath k = Some live" "map_of cs' k = None"
    by auto
  have notcs: "k \<notin> fst ` set cs'"
    using concl(7) by (simp add: map_of_eq_None_iff)
  show ?thesis
  proof (cases "DeleteExtra opts")
    case False
    with loop paths have "RestoreSnapshot unreadable st snapshot targetPath opts = (Inr r', st')"
      by (simp add: RestoreSnapshot_def)
    with concl show ?thesis
      by (simp add: liveAt_def)
  next
    case True
    from deleteExtras_store[of opts targetPath r' st' cs'] obtain r'' st'' where
      del: "deleteExtras opts targetPath (r', st') cs' = (None, r'', st'')"
      and fields: "Deleted r'' = Deleted r' @ map fst cs'" "Added r'' = Added r'"
        "Updated r'' = Updated r'" "Unchanged r'' = Unchanged r'" "Skipped r'' = Skipped r'"
      and store: "\<forall>p. map_of st'' p =
           (if \<not> DryRun opts \<and> p \<in> (\<lambda>k. targetPath @ ''/'' @ k) ` fst ` set cs' then None
            else map_of st' p)"
      by blast
    from True loop paths del
    have run: "RestoreSnapshot unreadable st snapshot targetPath opts = (Inr r'', st'')"
      by (simp add: RestoreSnapshot_def)
    have "map_of st'' (targetPath @ ''/'' @ k) = map_of st' (targetPath @ ''/'' @ k)"
      using store notcs target_path_image[of targetPath k "fst ` set cs'"] by simp
    moreover have "k \<notin> set (Deleted r'')"
      using fields(1) concl(5) notcs by simp
    ultimately show ?thesis
      using run concl fields by (simp add: liveAt_def)
  qed
qed

text \<open>
  Claim C6 is right and the code misses a case.  The verify check is
  \<^verbatim>\<open>err == nil && metadata.CurrentVersion != snapshotSecret.Version\<close>: when \<^verbatim>\<open>GetMetadata\<close>
  returns an error, the check is passed over and the secret is compared and written
  like any other.  Here secret \<open>a\<close> is live at version 2 with the value \<open>changed\<close>, the
  snapshot recorded version 1 and the value \<open>1\<close>, and the store refuses to read the
  metadata of \<open>a\<close>: the run with \<^verbatim>\<open>Verify\<close> reports \<open>a\<close> as updated, skips nothing, and
  leaves \<open>a\<close> at version 3 with the snapshot's value.  With readable metadata the same
  run skips \<open>a\<close> and leaves it as it was.
\<close>

theorem RestoreSnapshot_verify_overwrites_when_metadata_unreadable:
  "map_of changedStore ''secret/app/a''
     = Some \<lparr>StoredVersion = 2, StoredData = [(''value'', AStr ''changed'')]\<rparr> \<and>
   map_of (Secrets (scenarioSnapshot 1 1)) ''a''
     = Some \<lparr>SecretValue = AStr ''1'', SecretVersion = 1, SecretUpdated = 0\<rparr> \<and>
   RestoreSnapshot [''secret/app/a''] changedStore (scenarioSnapshot 1 1) ''secret/app''
       \<lparr>DryRun = False, Verify = True, DeleteExtra = True\<rparr> =
     (Inr \<lparr>Added = [''b''], Updated = [''a''], Deleted = [], Unchanged = [], Skipped = []\<rparr>,
      [(''secret/app/a'', \<lparr>StoredVersion = 3, StoredData = [(''value'', AStr ''1'')]\<rparr>),
       (''secret/app/b'', \<lparr>StoredVersion = 1, StoredData = [(''value'', AStr ''2'')]\<rparr>)]) \<and>
   RestoreSnapshot [] changedStore (scenarioSnapshot 1 1) ''secret/app''
       \<lparr>DryRun = False, Verify = True, DeleteExtra = True\<rparr> =
     (Inr \<lparr>Added = [''b''], Updated = [], Deleted = [], Unchanged = [], Skipped = [''a'']\<rparr>,
      [(''secret/app/a'', \<lparr>StoredVersion = 2, StoredData = [(''value'', AStr ''changed'')]\<rparr>),
       (''secret/app/b'', \<lparr>StoredVersion = 1, StoredData = [(''value'', AStr ''2'')]\<rparr>)])"
  by (simp add: changedStore_def scenarioSnapshot_def RestoreSnapshot_def restoreSecret_def
        verifyMismatch_def sameValue_def storeListSecretPaths_def storeGetMetadata_def
        storeReadSecretRaw_def storeWriteSecret_def storeDeleteSecret_def stripPrefix_def
        unwrapValue_def snapshotCompareValue_def writeData_def List.map_filter_def Let_def)





section \<open>Properties of the timeline and of state reconstruction\<close>







lemma alistOf_Cons:
  "alistOf p (k # ks) = (case p k of None \<Rightarrow> alistOf p ks | Some v \<Rightarrow> (k, v) # alistOf p ks)"
  by (simp add: alistOf_def List.map_filter_simps split: option.split)

lemma alistOf_Nil: "alistOf p [] = []"
  by (simp add: alistOf_def List.map_filter_simps)

lemma alistOf_keys: "fst ` set (alistOf p ks) \<subseteq> set ks"
  by (induction ks) (auto simp: alistOf_Cons alistOf_Nil split: option.splits)





lemma walkEvent_dom: "dom (walkEvent e p) \<subseteq> dom p"
  by (auto simp: walkEvent_def split: if_splits)

lemma fold_walkEvent_dom: "dom (fold walkEvent es p) \<subseteq> dom p"
proof (induction es arbitrary: p)
  case Nil
  show ?case by simp
next
  case (Cons e es)
  have "dom (fold walkEvent es (walkEvent e p)) \<subseteq> dom (walkEvent e p)"
    by (rule Cons.IH)
  with walkEvent_dom[of e p] show ?case
    by auto
qed
















text \<open>
  The current value of a key is its value at the newest retained version whenever the
  store answers a read without a version as it answers the read of that version.
\<close>

lemma liveValue_retained:
  assumes "currentVersion c dir k = Some ver" and "1 \<le> ver"
    and "ReadSecretRaw c (dir @ ''/'' @ k) = ReadSecretVersion c (dir @ ''/'' @ k) ver"
  shows "liveValue c dir k = retainedValue c dir k"
  using assms by (simp add: liveValue_def retainedValue_def valueAt_def)




lemmas client_eval =
  tableClient_def retainedAt_def GetVersionHistory_def versionInfoOf_def Atoi_def digitVal_def
  maxInt_def List.map_filter_def Let_def














lemma timelineStep_length:
  "length (timelineStep c dir timeline k) = length timeline + length (keyHistory c dir k)"
  by (simp add: timelineStep_def keyHistory_def Let_def split: sum.split)

lemma timeline_length:
  "length (foldl (timelineStep c dir) timeline paths) =
     length timeline + sum_list (map (\<lambda>k. length (keyHistory c dir k)) paths)"
  by (induction paths arbitrary: timeline) (simp_all add: timelineStep_length)

lemma sum_list_zero_iff:
  "sum_list (map (f :: 'a \<Rightarrow> nat) xs) = 0 \<longleftrightarrow> (\<forall>x \<in> set xs. f x = 0)"
  by (induction xs) auto

lemma sum_list_ones: "(\<forall>x \<in> set xs. f x = (1::nat)) \<Longrightarrow> sum_list (map f xs) = length xs"
  by (induction xs) auto

text \<open>
  Claim C2, as amended.  \<^verbatim>\<open>GetTimeline\<close> fails with \<open>NotFound\<close> when the directory has no
  keys.  When it has keys, it fails with \<open>NoHistory\<close> exactly when no key has a retained
  version (its history is empty or cannot be read); when every key has exactly one
  retained version it returns a timeline with one event for each key.
\<close>

theorem GetTimeline_errors:
  "(ListSecretPaths c dir = Inr [] \<longrightarrow> GetTimeline c dir = Inl NotFound) \<and>
   (ListSecretPaths c dir = Inr paths \<and> paths \<noteq> [] \<longrightarrow>
      ((GetTimeline c dir = Inl NoHistory) = (\<forall>k \<in> set paths. keyHistory c dir k = [])) \<and>
      ((\<forall>k \<in> set paths. length (keyHistory c dir k) = 1) \<longrightarrow>
         (\<exists>timeline. GetTimeline c dir = Inr timeline \<and> length timeline = length paths)))"
proof -
  have none: "ListSecretPaths c dir = Inr [] \<longrightarrow> GetTimeline c dir = Inl NotFound"
    by (simp add: GetTimeline_def)
  have some: "ListSecretPaths c dir = Inr paths \<and> paths \<noteq> [] \<longrightarrow>
      ((GetTimeline c dir = Inl NoHistory) = (\<forall>k \<in> set paths. keyHistory c dir k = [])) \<and>
      ((\<forall>k \<in> set paths. length (keyHistory c dir k) = 1) \<longrightarrow>
         (\<exists>timeline. GetTimeline c dir = Inr timeline \<and> length timeline = length paths))"
  proof
    assume a: "ListSecretPaths c dir = Inr paths \<and> paths \<noteq> []"
    let ?timeline = "foldl (timelineStep c dir) [] paths"
    have len: "length ?timeline = sum_list (map (\<lambda>k. length (keyHistory c dir k)) paths)"
      by (simp add: timeline_length)
    have run: "GetTimeline c dir =
        (if length ?timeline = 0 then Inl NoHistory
         else Inr (sort_key (\<lambda>e. - Time e) ?timeline))"
      using a by (simp add: GetTimeline_def Let_def)
    have "(length ?timeline = 0) = (\<forall>k \<in> set paths. keyHistory c dir k = [])"
      unfolding len sum_list_zero_iff by simp
    with run have first:
      "(GetTimeline c dir = Inl NoHistory) = (\<forall>k \<in> set paths. keyHistory c dir k = [])"
      by auto
    have second: "(\<forall>k \<in> set paths. length (keyHistory c dir k) = 1) \<longrightarrow>
         (\<exists>timeline. GetTimeline c dir = Inr timeline \<and> length timeline = length paths)"
    proof
      assume one: "\<forall>k \<in> set paths. length (keyHistory c dir k) = 1"
      then have "length ?timeline = length paths"
        unfolding len by (rule sum_list_ones)
      with a run show "\<exists>timeline. GetTimeline c dir = Inr timeline
          \<and> length timeline = length paths"
        by simp
    qed
    from first second show
      "((GetTimeline c dir = Inl NoHistory) = (\<forall>k \<in> set paths. keyHistory c dir k = [])) \<and>
       ((\<forall>k \<in> set paths. length (keyHistory c dir k) = 1) \<longrightarrow>
         (\<exists>timeline. GetTimeline c dir = Inr timeline \<and> length timeline = length paths))"
      by blast
  qed
  from none some show ?thesis
    by blast
qed

text \<open>
  The statement of C2 used on a directory without secrets, on one whose only secret has
  no retained version, and on one whose only secret was written once.
\<close>

theorem GetTimeline_errors_witness:
  "ListSecretPaths emptyClient ''d'' = Inr [] \<and>
   GetTimeline emptyClient ''d'' = Inl NotFound \<and>
   ListSecretPaths goneClient ''d'' = Inr [''k''] \<and> [''k''] \<noteq> [] \<and>
   keyHistory goneClient ''d'' ''k'' = [] \<and>
   GetTimeline goneClient ''d'' = Inl NoHistory \<and>
   ListSecretPaths freshClient ''d'' = Inr [''k''] \<and>
   length (keyHistory freshClient ''d'' ''k'') = 1 \<and>
   (\<exists>timeline. GetTimeline freshClient ''d'' = Inr timeline \<and> length timeline = length [''k''])"
proof -
  have e: "ListSecretPaths emptyClient ''d'' = Inr []"
    by (simp add: emptyClient_def tableClient_def)
  have g: "ListSecretPaths goneClient ''d'' = Inr [''k'']"
      "keyHistory goneClient ''d'' ''k'' = []"
    by (simp_all add: goneClient_def keyHistory_def client_eval)
  have f: "ListSecretPaths freshClient ''d'' = Inr [''k'']"
      "length (keyHistory freshClient ''d'' ''k'') = 1"
    by (simp_all add: freshClient_def keyHistory_def client_eval)
  from GetTimeline_errors[of emptyClient "''d''" "[]"] e
  have "GetTimeline emptyClient ''d'' = Inl NotFound"
    by blast
  moreover from GetTimeline_errors[of goneClient "''d''" "[''k'']"] g
  have "GetTimeline goneClient ''d'' = Inl NoHistory"
    by simp
  moreover from GetTimeline_errors[of freshClient "''d''" "[''k'']"] f
  have "\<exists>timeline. GetTimeline freshClient ''d'' = Inr timeline
      \<and> length timeline = length [''k'']"
    by simp
  ultimately show ?thesis
    using e g f by simp
qed

text \<open>
  Claim C2 as first stated fails: when the only key has exactly one retained version,
  \<^verbatim>\<open>GetTimeline\<close> returns its creation event and no error.
\<close>

theorem GetTimeline_single_version_counterexample:
  "ListSecretPaths freshClient ''d'' = Inr [''k''] \<and>
   length (keyHistory freshClient ''d'' ''k'') = 1 \<and>
   GetTimeline freshClient ''d'' =
     Inr [\<lparr>Time = 10, SecretPath = ''k'', FullPath = ''d/k'', EntryVersion = 1,
           IsCreation = True\<rparr>] \<and>
   GetTimeline freshClient ''d'' \<noteq> Inl NoHistory"
  by (simp add: freshClient_def keyHistory_def GetTimeline_def timelineStep_def client_eval)

end
